theory Spec2Isabelle
  imports Complex_Main "HOL-Library.AList"
begin

section \<open>Python values used by the mood log\<close>

text \<open>
  A Python \<open>str\<close> is a sequence of Unicode code points; the built-in messages of
  \<open>main.py\<close> are Chinese, so a string is a list of code points and ASCII literals are
  written \<open>str ''date''\<close>.
\<close>

type_synonym pystr = "nat list"

definition str :: "string \<Rightarrow> pystr" where
  "str s = map of_char s"

datatype error =
    FileNotFoundError
  | ReadError
  | ValueError
  | OverflowError
  | KeyError
  | ZeroDivisionError
  | IndexError

text \<open>
  What differs between interpreter versions is a parameter of the model:
  \<^item> \<open>unicode_todecimal\<close>: the decimal value of a non-ASCII decimal digit
    (\<open>Py_UNICODE_TODECIMAL\<close>, a table of the Unicode database), \<open>None\<close> for any other
    character;
  \<^item> \<open>int_max_str_digits\<close>: \<open>sys.get_int_max_str_digits()\<close>, 0 when there is no limit;
  \<^item> \<open>fromisoformat\<close>: \<open>date.fromisoformat\<close>, giving the ordinal of the parsed day and
    \<open>None\<close> where it raises \<open>ValueError\<close> (the accepted formats grew in Python 3.11).
\<close>

record interp =
  unicode_todecimal :: "nat \<Rightarrow> nat option"
  int_max_str_digits :: nat
  fromisoformat :: "pystr \<Rightarrow> int option"

subsection \<open>\<open>str.strip()\<close>\<close>

definition is_unicode_space :: "nat \<Rightarrow> bool" where
  "is_unicode_space c \<longleftrightarrow>
     (0x09 \<le> c \<and> c \<le> 0x0D) \<or> (0x1C \<le> c \<and> c \<le> 0x20) \<or> c = 0x85 \<or> c = 0xA0 \<or>
     c = 0x1680 \<or> (0x2000 \<le> c \<and> c \<le> 0x200A) \<or> c = 0x2028 \<or> c = 0x2029 \<or>
     c = 0x202F \<or> c = 0x205F \<or> c = 0x3000"

definition strip :: "pystr \<Rightarrow> pystr" where
  "strip s = rev (dropWhile is_unicode_space (rev (dropWhile is_unicode_space s)))"

subsection \<open>\<open>int(s)\<close> on a string\<close>

text \<open>
  \<open>int\<close> first rewrites the string to ASCII (non-ASCII white space becomes a blank, a
  non-ASCII decimal digit its ASCII digit, anything else \<open>?\<close>), then reads: ASCII white
  space, an optional sign, decimal digits with single underscores between them, ASCII
  white space, end of string. Everything else is \<open>ValueError\<close>.
\<close>

definition is_ascii_space :: "nat \<Rightarrow> bool" where
  "is_ascii_space c \<longleftrightarrow> (0x09 \<le> c \<and> c \<le> 0x0D) \<or> c = 0x20"

definition is_ascii_digit :: "nat \<Rightarrow> bool" where
  "is_ascii_digit c \<longleftrightarrow> 0x30 \<le> c \<and> c \<le> 0x39"

definition to_ascii :: "interp \<Rightarrow> nat \<Rightarrow> nat" where
  "to_ascii I c =
     (if c < 127 then c
      else if is_unicode_space c then 0x20
      else (case unicode_todecimal I c of None \<Rightarrow> 0x3F | Some d \<Rightarrow> 0x30 + d))"

fun underscores_ok :: "nat list \<Rightarrow> bool" where
  "underscores_ok [] = True"
| "underscores_ok [c] = (c \<noteq> 0x5F)"
| "underscores_ok (c # d # cs) = (\<not> (c = 0x5F \<and> d = 0x5F) \<and> underscores_ok (d # cs))"

definition decimal_value :: "nat list \<Rightarrow> int" where
  "decimal_value ds = foldl (\<lambda>acc c. 10 * acc + int (c - 0x30)) 0 ds"

definition py_int :: "interp \<Rightarrow> pystr \<Rightarrow> error + int" where
  "py_int I s =
     (let s1 = dropWhile is_ascii_space (map (to_ascii I) s);
          neg = (s1 \<noteq> [] \<and> hd s1 = 0x2D);
          s2 = (if s1 \<noteq> [] \<and> (hd s1 = 0x2B \<or> hd s1 = 0x2D) then tl s1 else s1);
          body = takeWhile (\<lambda>c. is_ascii_digit c \<or> c = 0x5F) s2;
          rest = dropWhile (\<lambda>c. is_ascii_digit c \<or> c = 0x5F) s2;
          ds = filter is_ascii_digit body
      in if body = [] \<or> hd body = 0x5F \<or> \<not> underscores_ok body then Inl ValueError
         else if length ds > 640 \<and> int_max_str_digits I > 0 \<and> length ds > int_max_str_digits I
           then Inl ValueError
         else if dropWhile is_ascii_space rest \<noteq> [] then Inl ValueError
         else Inr (if neg then - decimal_value ds else decimal_value ds))"

subsection \<open>Floats\<close>

text \<open>
  A \<open>float\<close> is an IEEE double: \<open>Finite x\<close> is the double of value \<open>x\<close>, beside the two
  infinities and not-a-number (the two zeros are not told apart: nothing below depends on
  the sign of a zero). An arithmetic operation gives the exact result rounded to the
  nearest double, the even one of two equally near: \<open>round_double x\<close> is the nearest
  multiple of the unit in the last place of \<open>x\<close>, whose 53-bit significand has exponent
  \<open>float_exponent x\<close> (never below that of the subnormal numbers); a result of magnitude
  \<open>2 ^ 1024\<close> or more is beyond the doubles.
\<close>

datatype pyfloat = Finite real | PosInf | NegInf | NaN

definition round_half_even :: "real \<Rightarrow> int" where
  "round_half_even x =
     (let f = \<lfloor>x\<rfloor>; d = x - of_int f
      in if d < 1 / 2 then f else if d > 1 / 2 then f + 1 else if even f then f else f + 1)"

definition float_exponent :: "real \<Rightarrow> int" where
  "float_exponent x = max \<lfloor>log 2 \<bar>x\<bar>\<rfloor> (- 1022)"

definition ulp :: "real \<Rightarrow> real" where
  "ulp x = 2 powr real_of_int (float_exponent x - 52)"

definition round_double :: "real \<Rightarrow> real" where
  "round_double x = (if x = 0 then 0 else real_of_int (round_half_even (x / ulp x)) * ulp x)"

definition round_float :: "real \<Rightarrow> pyfloat" where
  "round_float x =
     (let y = round_double x
      in if 2 ^ 1024 \<le> y then PosInf else if y \<le> - (2 ^ 1024) then NegInf else Finite y)"

text \<open>\<open>a < b\<close> on floats: false whenever an operand is not-a-number.\<close>

fun float_lt :: "pyfloat \<Rightarrow> pyfloat \<Rightarrow> bool" where
  "float_lt NaN b = False"
| "float_lt a NaN = False"
| "float_lt (Finite a) (Finite b) = (a < b)"
| "float_lt a NegInf = False"
| "float_lt NegInf b = True"
| "float_lt PosInf b = False"
| "float_lt a PosInf = True"

text \<open>
  \<open>min(a, b)\<close> and \<open>max(a, b)\<close> keep their first argument unless the second is smaller,
  respectively greater.
\<close>

definition py_min :: "pyfloat \<Rightarrow> pyfloat \<Rightarrow> pyfloat" where
  "py_min a b = (if float_lt b a then b else a)"

definition py_max :: "pyfloat \<Rightarrow> pyfloat \<Rightarrow> pyfloat" where
  "py_max a b = (if float_lt a b then b else a)"

fun float_sub :: "pyfloat \<Rightarrow> pyfloat \<Rightarrow> pyfloat" where
  "float_sub NaN b = NaN"
| "float_sub a NaN = NaN"
| "float_sub (Finite a) (Finite b) = round_float (a - b)"
| "float_sub PosInf PosInf = NaN"
| "float_sub NegInf NegInf = NaN"
| "float_sub PosInf b = PosInf"
| "float_sub NegInf b = NegInf"
| "float_sub a PosInf = NegInf"
| "float_sub a NegInf = PosInf"

fun float_mul :: "pyfloat \<Rightarrow> pyfloat \<Rightarrow> pyfloat" where
  "float_mul NaN b = NaN"
| "float_mul a NaN = NaN"
| "float_mul (Finite a) (Finite b) = round_float (a * b)"
| "float_mul (Finite a) PosInf = (if a = 0 then NaN else if 0 < a then PosInf else NegInf)"
| "float_mul (Finite a) NegInf = (if a = 0 then NaN else if 0 < a then NegInf else PosInf)"
| "float_mul PosInf (Finite b) = (if b = 0 then NaN else if 0 < b then PosInf else NegInf)"
| "float_mul NegInf (Finite b) = (if b = 0 then NaN else if 0 < b then NegInf else PosInf)"
| "float_mul PosInf PosInf = PosInf"
| "float_mul NegInf NegInf = PosInf"
| "float_mul PosInf NegInf = NegInf"
| "float_mul NegInf PosInf = NegInf"

text \<open>\<open>a / b\<close> on floats raises \<open>ZeroDivisionError\<close> when \<open>b\<close> is zero.\<close>

fun float_div :: "pyfloat \<Rightarrow> pyfloat \<Rightarrow> error + pyfloat" where
  "float_div a (Finite b) =
     (if b = 0 then Inl ZeroDivisionError
      else (case a of
              Finite x \<Rightarrow> Inr (round_float (x / b))
            | PosInf \<Rightarrow> Inr (if 0 < b then PosInf else NegInf)
            | NegInf \<Rightarrow> Inr (if 0 < b then NegInf else PosInf)
            | NaN \<Rightarrow> Inr NaN))"
| "float_div NaN b = Inr NaN"
| "float_div a NaN = Inr NaN"
| "float_div (Finite a) b = Inr (Finite 0)"
| "float_div a b = Inr NaN"

text \<open>
  \<open>round(x)\<close> on a float gives the nearest integer, the even one of two equally near, and
  raises on not-a-number and on an infinity.
\<close>

fun py_round :: "pyfloat \<Rightarrow> error + int" where
  "py_round (Finite x) = Inr (round_half_even x)"
| "py_round NaN = Inl ValueError"
| "py_round x = Inl OverflowError"

text \<open>
  \<open>a / b\<close> on integers is the double nearest to the exact quotient; it raises
  \<open>ZeroDivisionError\<close> on a zero divisor and \<open>OverflowError\<close> when the quotient is beyond
  the doubles.
\<close>

definition truediv :: "int \<Rightarrow> int \<Rightarrow> error + pyfloat" where
  "truediv a b =
     (if b = 0 then Inl ZeroDivisionError
      else (case round_float (real_of_int a / real_of_int b) of
              Finite y \<Rightarrow> Inr (Finite y)
            | _ \<Rightarrow> Inl OverflowError))"

subsection \<open>Calendar days\<close>

text \<open>
  A \<open>date\<close> is represented by its proleptic Gregorian ordinal, as \<open>date.toordinal()\<close>
  gives it: day 1 is 0001-01-01 and the last day, 9999-12-31, is \<open>MAXORDINAL\<close>.
  \<open>date.today()\<close> is an argument \<open>today\<close> of every function that reads the clock.
\<close>

definition MAXORDINAL :: int where
  "MAXORDINAL = 3652059"

definition timedelta :: "int \<Rightarrow> error + int" where
  "timedelta days = (if \<bar>days\<bar> \<le> 999999999 then Inr days else Inl OverflowError)"

definition date_sub :: "int \<Rightarrow> int \<Rightarrow> error + int" where
  "date_sub d days =
     (case timedelta days of
        Inl e \<Rightarrow> Inl e
      | Inr delta \<Rightarrow>
          (let ord = d - delta
           in if 0 < ord \<and> ord \<le> MAXORDINAL then Inr ord else Inl OverflowError))"

definition DAYS_IN_MONTH :: "int list" where
  "DAYS_IN_MONTH = [-1, 31, 28, 31, 30, 31, 30, 31, 31, 30, 31, 30, 31]"

definition DAYS_BEFORE_MONTH :: "int list" where
  "DAYS_BEFORE_MONTH = [-1, 0, 31, 59, 90, 120, 151, 181, 212, 243, 273, 304, 334]"

definition is_leap :: "int \<Rightarrow> bool" where
  "is_leap year \<longleftrightarrow> year mod 4 = 0 \<and> (year mod 100 \<noteq> 0 \<or> year mod 400 = 0)"

definition days_before_year :: "int \<Rightarrow> int" where
  "days_before_year year = (let y = year - 1 in y * 365 + y div 4 - y div 100 + y div 400)"

definition days_in_month :: "int \<Rightarrow> int \<Rightarrow> int" where
  "days_in_month year month =
     (if month = 2 \<and> is_leap year then 29 else DAYS_IN_MONTH ! nat month)"

definition ymd2ord :: "int \<Rightarrow> int \<Rightarrow> int \<Rightarrow> int" where
  "ymd2ord year month day =
     days_before_year year
     + (DAYS_BEFORE_MONTH ! nat month + (if month > 2 \<and> is_leap year then 1 else 0))
     + day"

definition ord2ymd :: "int \<Rightarrow> int \<times> int \<times> int" where
  "ord2ymd ord =
     (let n = ord - 1;
          n400 = n div 146097; r400 = n mod 146097;
          n100 = r400 div 36524; r100 = r400 mod 36524;
          n4 = r100 div 1461; r4 = r100 mod 1461;
          n1 = r4 div 365; r1 = r4 mod 365;
          year = n400 * 400 + 1 + n100 * 100 + n4 * 4 + n1
      in if n1 = 4 \<or> n100 = 4 then (year - 1, 12, 31)
         else
           (let leapyear = (n1 = 3 \<and> (n4 \<noteq> 24 \<or> n100 = 3));
                month = (r1 + 50) div 32;
                preceding = DAYS_BEFORE_MONTH ! nat month
                            + (if month > 2 \<and> leapyear then 1 else 0)
            in if preceding > r1
               then (let month' = month - 1;
                         preceding' = preceding
                            - (DAYS_IN_MONTH ! nat month'
                               + (if month' = 2 \<and> leapyear then 1 else 0))
                     in (year, month', r1 - preceding' + 1))
               else (year, month, r1 - preceding + 1)))"

text \<open>\<open>"%0wd" % n\<close> for \<open>n \<ge> 0\<close>: the decimal digits of \<open>n\<close>, zero-padded to width \<open>w\<close>.\<close>

function decimal :: "nat \<Rightarrow> pystr" where
  "decimal n = (if n < 10 then [0x30 + n] else decimal (n div 10) @ [0x30 + n mod 10])"
  by pat_completeness auto
termination
  by (relation "measure id") auto

declare decimal.simps [simp del]

definition zero_pad :: "nat \<Rightarrow> int \<Rightarrow> pystr" where
  "zero_pad w n = (let ds = decimal (nat n) in replicate (w - length ds) 0x30 @ ds)"

definition isoformat :: "int \<Rightarrow> pystr" where
  "isoformat d =
     (case ord2ymd d of
        (year, month, day) \<Rightarrow>
          zero_pad 4 year @ [0x2D] @ zero_pad 2 month @ [0x2D] @ zero_pad 2 day)"

text \<open>
  One interpreter for the closed examples: its decimal table knows the fullwidth digits,
  its digit limit is the default 4300, and its \<open>fromisoformat\<close> accepts \<open>YYYY-MM-DD\<close>
  only (Python 3.7 to 3.10).
\<close>

definition fromisoformat_strict :: "pystr \<Rightarrow> int option" where
  "fromisoformat_strict s =
     (if length s = 10 \<and> s ! 4 = 0x2D \<and> s ! 7 = 0x2D
         \<and> list_all is_ascii_digit (take 4 s @ take 2 (drop 5 s) @ drop 8 s)
      then (let year = decimal_value (take 4 s);
                month = decimal_value (take 2 (drop 5 s));
                day = decimal_value (drop 8 s)
            in if 1 \<le> year \<and> 1 \<le> month \<and> month \<le> 12
                  \<and> 1 \<le> day \<and> day \<le> days_in_month year month
               then Some (ymd2ord year month day) else None)
      else None)"

definition sample_interp :: interp where
  "sample_interp =
     \<lparr> unicode_todecimal = (\<lambda>c. if 0xFF10 \<le> c \<and> c \<le> 0xFF19 then Some (c - 0xFF10) else None),
       int_max_str_digits = 4300,
       fromisoformat = fromisoformat_strict \<rparr>"

section \<open>The log file\<close>

text \<open>
  The file at \<open>CSV_PATH\<close> is modelled by what \<open>csv.reader\<close> yields from it:
  \<open>Missing\<close> is no file; \<open>Present rows ok\<close> is a file from which the reader yields
  \<open>rows\<close> and then ends (\<open>ok\<close>) or raises (\<open>\<not> ok\<close>: bytes that are not UTF-8, a
  \<open>csv.Error\<close>, an I/O error; a file that cannot be opened is \<open>Present [] False\<close>).
  What \<open>csv.writer.writerow\<close> writes, the reader yields back as the same row; writing
  itself is taken to succeed.
\<close>

type_synonym row = "pystr list"

datatype csvfile = Missing | Present "row list" bool

section \<open>\<open>main.py\<close>\<close>

subsection \<open>\<open>upgrade_csv_schema\<close>\<close>

definition new_header :: row where
  "new_header = [str ''date'', str ''score'', str ''message'', str ''note'']"

text \<open>The \<open>try\<close> block: \<open>header = next(reader, None); rows = list(reader)\<close>.\<close>

definition read_header_rows :: "csvfile \<Rightarrow> error + (row option \<times> row list)" where
  "read_header_rows f =
     (case f of
        Missing \<Rightarrow> Inl FileNotFoundError
      | Present rs ok \<Rightarrow>
          if \<not> ok then Inl ReadError
          else (case rs of [] \<Rightarrow> Inr (None, []) | h # rows \<Rightarrow> Inr (Some h, rows)))"

text \<open>The loop \<open>for r in rows\<close> of both rewriting branches; \<open>out\<close> is what has been written.\<close>

fun write_rows :: "row list \<Rightarrow> row list \<Rightarrow> row list" where
  "write_rows out [] = out"
| "write_rows out (r # rs) =
     (if length r = 3 then write_rows (out @ [[r ! 0, r ! 1, r ! 2, str '''']]) rs
      else write_rows (out @ [r]) rs)"

text \<open>
  The result is the file afterwards, and whether the function opened it for writing
  (which truncates it): where it did not, the bytes on disk are untouched.
\<close>

definition upgrade_csv_schema :: "csvfile \<Rightarrow> csvfile \<times> bool" where
  "upgrade_csv_schema f =
     (case read_header_rows f of
        Inl FileNotFoundError \<Rightarrow> (f, False)
      | Inl _ \<Rightarrow> (f, False)
      | Inr (header, rows) \<Rightarrow>
          (case header of
             None \<Rightarrow> (Present (write_rows [new_header] rows) True, True)
           | Some h \<Rightarrow>
               if length h = 3 then (Present (write_rows [new_header] rows) True, True)
               else (f, False)))"

subsection \<open>\<open>choose_message\<close>\<close>

definition builtin_low :: pystr where
  "builtin_low = [0x518D, 0x96BE, 0x4E5F, 0x4F1A, 0x8FC7, 0x53BB, 0x7684, 0xFF0C,
                  0x4F60, 0x5DF2, 0x7ECF, 0x5F88, 0x68D2, 0x4E86, 0x3002]"

definition builtin_mid :: pystr where
  "builtin_mid = [0x4FDD, 0x6301, 0x8282, 0x594F, 0xFF0C, 0x7A33, 0x6B65, 0x5411,
                  0x524D, 0xFF0C, 0x5C31, 0x662F, 0x80DC, 0x5229, 0x3002]"

definition builtin_high :: pystr where
  "builtin_high = [0x72B6, 0x6001, 0x7EDD, 0x4F73, 0xFF0C, 0x7EE7, 0x7EED, 0x53D1,
                   0x5149, 0xFF01]"

text \<open>\<open>messages.get(k) or default\<close>: the default replaces \<open>None\<close> and the empty list.\<close>

definition get_or :: "(pystr \<rightharpoonup> pystr list) \<Rightarrow> pystr \<Rightarrow> pystr list \<Rightarrow> pystr list" where
  "get_or messages k dflt =
     (case messages k of None \<Rightarrow> dflt | Some l \<Rightarrow> if l = [] then dflt else l)"

text \<open>The \<open>if\<close>/\<open>elif\<close>/\<open>else\<close> chain that opens \<open>choose_message\<close>.\<close>

definition select_pool :: "int \<Rightarrow> (pystr \<rightharpoonup> pystr list) \<Rightarrow> pystr list" where
  "select_pool score messages =
     (if score \<le> 4 then get_or messages (str ''low'') [builtin_low]
      else if score \<le> 7 then get_or messages (str ''mid'') [builtin_mid]
      else get_or messages (str ''high'') [builtin_high])"

text \<open>
  \<open>random.choice(seq)\<close> is \<open>seq[_randbelow(len(seq))]\<close> and raises \<open>IndexError\<close> on an empty
  sequence. The generator's draw is an argument \<open>r\<close>, reduced below the length, so every
  index can come out.
\<close>

definition choice :: "nat \<Rightarrow> 'a list \<Rightarrow> error + 'a" where
  "choice r seq = (if seq = [] then Inl IndexError else Inr (seq ! (r mod length seq)))"

definition choose_message ::
  "nat \<Rightarrow> int \<Rightarrow> (pystr \<rightharpoonup> pystr list) \<Rightarrow> pystr option \<Rightarrow> pystr set option \<Rightarrow> error + pystr" where
  "choose_message r score messages exclude excludes =
     (let pool = select_pool score messages;
          exclude_set0 = {};
          exclude_set1 = (case exclude of None \<Rightarrow> exclude_set0 | Some e \<Rightarrow> insert e exclude_set0);
          exclude_set = (case excludes of
                           None \<Rightarrow> exclude_set1
                         | Some S \<Rightarrow> if S \<noteq> {} then exclude_set1 \<union> S else exclude_set1);
          candidates = filter (\<lambda>m. m \<notin> exclude_set) pool
      in if candidates \<noteq> [] then choice r candidates else choice r pool)"

subsection \<open>\<open>read_recent_messages\<close>\<close>

fun recent_loop :: "interp \<Rightarrow> int \<Rightarrow> int \<Rightarrow> row list \<Rightarrow> pystr set \<Rightarrow> pystr set" where
  "recent_loop I cutoff today [] used = used"
| "recent_loop I cutoff today (r # rs) used =
     (if length r \<ge> 3 then
        (let day_str = strip (r ! 0)
         in case fromisoformat I day_str of
              None \<Rightarrow> recent_loop I cutoff today rs used
            | Some d \<Rightarrow>
                if cutoff \<le> d \<and> d \<le> today
                then recent_loop I cutoff today rs (insert (r ! 2) used)
                else recent_loop I cutoff today rs used)
      else recent_loop I cutoff today rs used)"

text \<open>
  \<open>cutoff\<close> is computed before the \<open>try\<close>, so its \<open>OverflowError\<close> leaves the function;
  a failure of the reader inside the \<open>try\<close> returns what has been collected so far.
\<close>

definition read_recent_messages :: "interp \<Rightarrow> int \<Rightarrow> int \<Rightarrow> csvfile \<Rightarrow> error + pystr set" where
  "read_recent_messages I today last_days f =
     (case f of
        Missing \<Rightarrow> Inr {}
      | Present rs ok \<Rightarrow>
          (case date_sub today (last_days - 1) of
             Inl e \<Rightarrow> Inl e
           | Inr cutoff \<Rightarrow> Inr (recent_loop I cutoff today (drop 1 rs) {})))"

subsection \<open>\<open>read_all_records\<close>\<close>

fun records_loop :: "interp \<Rightarrow> row list \<Rightarrow> (pystr \<times> int) list \<Rightarrow> (pystr \<times> int) list" where
  "records_loop I [] out = out"
| "records_loop I (r # rs) out =
     (if length r \<ge> 2 then
        (let day = strip (r ! 0)
         in case py_int I (r ! 1) of
              Inl e \<Rightarrow> records_loop I rs out
            | Inr score \<Rightarrow> records_loop I rs (out @ [(day, score)]))
      else records_loop I rs out)"

definition read_all_records :: "interp \<Rightarrow> csvfile \<Rightarrow> error + (pystr \<times> int) list" where
  "read_all_records I f =
     (case f of
        Missing \<Rightarrow> Inr []
      | Present rs ok \<Rightarrow> if ok then Inr (records_loop I (drop 1 rs) []) else Inl ReadError)"

subsection \<open>\<open>aggregate_daily_average\<close>\<close>

text \<open>
  A \<open>dict\<close> is an association list in insertion order with distinct keys:
  \<open>d.get(k, v)\<close> is \<open>dict_get\<close>, \<open>d[k]\<close> is \<open>dict_index\<close>, \<open>d[k] = v\<close> is \<open>AList.update\<close>.
\<close>

definition dict_get :: "('k \<times> 'v) list \<Rightarrow> 'k \<Rightarrow> 'v \<Rightarrow> 'v" where
  "dict_get d k dflt = (case map_of d k of None \<Rightarrow> dflt | Some v \<Rightarrow> v)"

definition dict_index :: "('k \<times> 'v) list \<Rightarrow> 'k \<Rightarrow> error + 'v" where
  "dict_index d k = (case map_of d k of None \<Rightarrow> Inl KeyError | Some v \<Rightarrow> Inr v)"

fun sums_counts ::
  "(pystr \<times> int) list \<Rightarrow> (pystr \<times> int) list \<times> (pystr \<times> int) list
     \<Rightarrow> (pystr \<times> int) list \<times> (pystr \<times> int) list" where
  "sums_counts [] (sums', counts) = (sums', counts)"
| "sums_counts ((d, s) # records) (sums', counts) =
     sums_counts records
       (AList.update d (dict_get sums' d 0 + s) sums',
        AList.update d (dict_get counts d 0 + 1) counts)"

text \<open>The comprehension \<open>{d: sums[d] / counts[d] for d in sums}\<close>, key by key.\<close>

fun averages ::
  "pystr list \<Rightarrow> (pystr \<times> int) list \<Rightarrow> (pystr \<times> int) list \<Rightarrow> (pystr \<times> pyfloat) list
     \<Rightarrow> error + (pystr \<times> pyfloat) list" where
  "averages [] sums' counts out = Inr out"
| "averages (d # ds) sums' counts out =
     (case dict_index sums' d of
        Inl e \<Rightarrow> Inl e
      | Inr sm \<Rightarrow>
          (case dict_index counts d of
             Inl e \<Rightarrow> Inl e
           | Inr c \<Rightarrow>
               (case truediv sm c of
                  Inl e \<Rightarrow> Inl e
                | Inr v \<Rightarrow> averages ds sums' counts (AList.update d v out))))"

definition aggregate_daily_average :: "(pystr \<times> int) list \<Rightarrow> error + (pystr \<times> pyfloat) list" where
  "aggregate_daily_average records =
     (case sums_counts records ([], []) of
        (sums', counts) \<Rightarrow> averages (map fst sums') sums' counts [])"

subsection \<open>\<open>last_n_dates\<close>\<close>

text \<open>\<open>range(n - 1, -1, -1)\<close> is \<open>n - 1, \<dots>, 0\<close>, and empty for \<open>n \<le> 0\<close>.\<close>

definition range_down :: "int \<Rightarrow> int list" where
  "range_down n = rev [0..n - 1]"

fun days_before :: "int \<Rightarrow> int list \<Rightarrow> error + int list" where
  "days_before today [] = Inr []"
| "days_before today (i # is) =
     (case date_sub today i of
        Inl e \<Rightarrow> Inl e
      | Inr d \<Rightarrow> (case days_before today is of Inl e \<Rightarrow> Inl e | Inr ds \<Rightarrow> Inr (d # ds)))"

definition last_n_dates :: "int \<Rightarrow> int \<Rightarrow> error + pystr list" where
  "last_n_dates today n =
     (case days_before today (range_down n) of
        Inl e \<Rightarrow> Inl e
      | Inr days \<Rightarrow> Inr (map isoformat days))"

subsection \<open>\<open>to_sparkline\<close>\<close>

definition blocks :: pystr where
  "blocks = [0x2581, 0x2582, 0x2583, 0x2584, 0x2585, 0x2586, 0x2587, 0x2588]"

text \<open>
  The \<open>else\<close> branch of the loop body, up to the index into \<open>blocks\<close>: the clamp, the
  linear map in float arithmetic (the integer \<open>len(blocks) - 1\<close> becomes a float for the
  product), \<open>round\<close>, and the clamp of the index.
\<close>

definition block_index :: "pyfloat \<Rightarrow> error + int" where
  "block_index v0 =
     (let v = py_max (Finite 1) (py_min (Finite 10) v0)
      in case float_div (float_sub v (Finite 1)) (Finite 9) of
           Inl e \<Rightarrow> Inl e
         | Inr q \<Rightarrow>
             (case py_round (float_mul q (Finite (real_of_int (int (length blocks) - 1)))) of
                Inl e \<Rightarrow> Inl e
              | Inr idx \<Rightarrow> Inr (max 0 (min (int (length blocks) - 1) idx))))"

fun sparkline_loop :: "pyfloat option list \<Rightarrow> pystr list \<Rightarrow> error + pystr list" where
  "sparkline_loop [] out_chars = Inr out_chars"
| "sparkline_loop (None # values) out_chars = sparkline_loop values (out_chars @ [[0xB7]])"
| "sparkline_loop (Some v # values) out_chars =
     (case block_index v of
        Inl e \<Rightarrow> Inl e
      | Inr idx \<Rightarrow> sparkline_loop values (out_chars @ [[blocks ! nat idx]]))"

definition to_sparkline :: "pyfloat option list \<Rightarrow> error + pystr" where
  "to_sparkline values =
     (case sparkline_loop values [] of
        Inl e \<Rightarrow> Inl e
      | Inr out_chars \<Rightarrow> Inr (concat out_chars))"

subsection \<open>\<open>show_recent_stats\<close>\<close>

text \<open>
  What \<open>show_recent_stats\<close> computes before it prints: \<open>None\<close> is the early return on an
  empty history, otherwise the day labels, the aligned values and the sparkline.
\<close>

definition show_recent_stats ::
  "interp \<Rightarrow> int \<Rightarrow> int \<Rightarrow> csvfile
     \<Rightarrow> error + (pystr list \<times> pyfloat option list \<times> pystr) option" where
  "show_recent_stats I today k f =
     (case read_all_records I f of
        Inl e \<Rightarrow> Inl e
      | Inr records \<Rightarrow>
          if records = [] then Inr None
          else
            (case aggregate_daily_average records of
               Inl e \<Rightarrow> Inl e
             | Inr daily_avg \<Rightarrow>
                 (case last_n_dates today k of
                    Inl e \<Rightarrow> Inl e
                  | Inr days \<Rightarrow>
                      (let aligned_values = map (map_of daily_avg) days
                       in case to_sparkline aligned_values of
                            Inl e \<Rightarrow> Inl e
                          | Inr spark \<Rightarrow> Inr (Some (days, aligned_values, spark))))))"

section \<open>\<open>data_manager.py\<close>\<close>

text \<open>
  The module repeats four helpers of \<open>main.py\<close>; they are transcribed here from its own
  text, under the prefix \<open>dm_\<close> (a name cannot begin with an underscore). The file they
  read is the one at the module's own \<open>CSV_PATH\<close>, \<open>data/mood_log.csv\<close> beside the module:
  the path \<open>main.py\<close> computes when the program runs from its sources (in a frozen build
  \<open>main.py\<close> alone moves its path beside the executable).
\<close>

fun dm_records_loop :: "interp \<Rightarrow> row list \<Rightarrow> (pystr \<times> int) list \<Rightarrow> (pystr \<times> int) list" where
  "dm_records_loop I [] out = out"
| "dm_records_loop I (r # rs) out =
     (if length r \<ge> 2 then
        (let day = strip (r ! 0)
         in case py_int I (r ! 1) of
              Inl e \<Rightarrow> dm_records_loop I rs out
            | Inr score \<Rightarrow> dm_records_loop I rs (out @ [(day, score)]))
      else dm_records_loop I rs out)"

definition dm_read_all_records :: "interp \<Rightarrow> csvfile \<Rightarrow> error + (pystr \<times> int) list" where
  "dm_read_all_records I f =
     (case f of
        Missing \<Rightarrow> Inr []
      | Present rs ok \<Rightarrow> if ok then Inr (dm_records_loop I (drop 1 rs) []) else Inl ReadError)"

fun dm_sums_counts ::
  "(pystr \<times> int) list \<Rightarrow> (pystr \<times> int) list \<times> (pystr \<times> int) list
     \<Rightarrow> (pystr \<times> int) list \<times> (pystr \<times> int) list" where
  "dm_sums_counts [] (sums', counts) = (sums', counts)"
| "dm_sums_counts ((d, s) # records) (sums', counts) =
     dm_sums_counts records
       (AList.update d (dict_get sums' d 0 + s) sums',
        AList.update d (dict_get counts d 0 + 1) counts)"

fun dm_averages ::
  "pystr list \<Rightarrow> (pystr \<times> int) list \<Rightarrow> (pystr \<times> int) list \<Rightarrow> (pystr \<times> pyfloat) list
     \<Rightarrow> error + (pystr \<times> pyfloat) list" where
  "dm_averages [] sums' counts out = Inr out"
| "dm_averages (d # ds) sums' counts out =
     (case dict_index sums' d of
        Inl e \<Rightarrow> Inl e
      | Inr sm \<Rightarrow>
          (case dict_index counts d of
             Inl e \<Rightarrow> Inl e
           | Inr c \<Rightarrow>
               (case truediv sm c of
                  Inl e \<Rightarrow> Inl e
                | Inr v \<Rightarrow> dm_averages ds sums' counts (AList.update d v out))))"

definition dm_aggregate_daily_average :: "(pystr \<times> int) list \<Rightarrow> error + (pystr \<times> pyfloat) list" where
  "dm_aggregate_daily_average records =
     (case dm_sums_counts records ([], []) of
        (sums', counts) \<Rightarrow> dm_averages (map fst sums') sums' counts [])"

fun dm_days_before :: "int \<Rightarrow> int list \<Rightarrow> error + int list" where
  "dm_days_before today [] = Inr []"
| "dm_days_before today (i # is) =
     (case date_sub today i of
        Inl e \<Rightarrow> Inl e
      | Inr d \<Rightarrow> (case dm_days_before today is of Inl e \<Rightarrow> Inl e | Inr ds \<Rightarrow> Inr (d # ds)))"

definition dm_last_n_dates :: "int \<Rightarrow> int \<Rightarrow> error + pystr list" where
  "dm_last_n_dates today n =
     (case dm_days_before today (range_down n) of
        Inl e \<Rightarrow> Inl e
      | Inr days \<Rightarrow> Inr (map isoformat days))"

definition dm_blocks :: pystr where
  "dm_blocks = [0x2581, 0x2582, 0x2583, 0x2584, 0x2585, 0x2586, 0x2587, 0x2588]"

definition dm_block_index :: "pyfloat \<Rightarrow> error + int" where
  "dm_block_index v0 =
     (let v = py_max (Finite 1) (py_min (Finite 10) v0)
      in case float_div (float_sub v (Finite 1)) (Finite 9) of
           Inl e \<Rightarrow> Inl e
         | Inr q \<Rightarrow>
             (case py_round (float_mul q (Finite (real_of_int (int (length dm_blocks) - 1)))) of
                Inl e \<Rightarrow> Inl e
              | Inr idx \<Rightarrow> Inr (max 0 (min (int (length dm_blocks) - 1) idx))))"

fun dm_sparkline_loop :: "pyfloat option list \<Rightarrow> pystr list \<Rightarrow> error + pystr list" where
  "dm_sparkline_loop [] out_chars = Inr out_chars"
| "dm_sparkline_loop (None # values) out_chars = dm_sparkline_loop values (out_chars @ [[0xB7]])"
| "dm_sparkline_loop (Some v # values) out_chars =
     (case dm_block_index v of
        Inl e \<Rightarrow> Inl e
      | Inr idx \<Rightarrow> dm_sparkline_loop values (out_chars @ [[dm_blocks ! nat idx]]))"

definition dm_to_sparkline :: "pyfloat option list \<Rightarrow> error + pystr" where
  "dm_to_sparkline values =
     (case dm_sparkline_loop values [] of
        Inl e \<Rightarrow> Inl e
      | Inr out_chars \<Rightarrow> Inr (concat out_chars))"

definition dm_read_aligned_series ::
  "interp \<Rightarrow> int \<Rightarrow> int \<Rightarrow> csvfile \<Rightarrow> error + (pystr list \<times> pyfloat option list)" where
  "dm_read_aligned_series I today last_days f =
     (case dm_read_all_records I f of
        Inl e \<Rightarrow> Inl e
      | Inr records \<Rightarrow>
          if records = [] then Inr ([], [])
          else
            (case dm_aggregate_daily_average records of
               Inl e \<Rightarrow> Inl e
             | Inr daily_avg \<Rightarrow>
                 (case dm_last_n_dates today last_days of
                    Inl e \<Rightarrow> Inl e
                  | Inr days \<Rightarrow> Inr (days, map (map_of daily_avg) days))))"

section \<open>The specification's words\<close>

text \<open>
  Definitions that follow the specification, to be compared with the code above.
\<close>

text \<open>Migration appends an empty 4th field to a 3-field row and passes any other row on.\<close>

definition spec_migrate_row :: "row \<Rightarrow> row" where
  "spec_migrate_row r = (if length r = 3 then r @ [str ''''] else r)"

text \<open>The specification's round-trip example: a v1 header and one v1 row.\<close>

definition v1_example :: csvfile where
  "v1_example =
     Present [[str ''date'', str ''score'', str ''message''],
              [str ''2024-01-01'', str ''5'', str ''hi'']] True"

text \<open>A syntactically valid row has at least 2 fields and an integer score field.\<close>

definition spec_valid_row :: "interp \<Rightarrow> row \<Rightarrow> bool" where
  "spec_valid_row I r \<longleftrightarrow> 2 \<le> length r \<and> \<not> isl (py_int I (r ! 1))"

definition spec_record :: "interp \<Rightarrow> row \<Rightarrow> pystr \<times> int" where
  "spec_record I r = (strip (r ! 0), projr (py_int I (r ! 1)))"

text \<open>
  The daily average: the mean of the scores of all records of that day, as the double
  nearest to it; a mean beyond the doubles has no average.
\<close>

definition spec_scores :: "(pystr \<times> int) list \<Rightarrow> pystr \<Rightarrow> int list" where
  "spec_scores records d = map snd (filter (\<lambda>p. fst p = d) records)"

definition spec_mean :: "(pystr \<times> int) list \<Rightarrow> pystr \<Rightarrow> real" where
  "spec_mean records d =
     real_of_int (sum_list (spec_scores records d)) / real (length (spec_scores records d))"

definition double_overflow :: "real \<Rightarrow> bool" where
  "double_overflow x \<longleftrightarrow> 2 ^ 1024 \<le> \<bar>round_double x\<bar>"

definition spec_daily_average :: "(pystr \<times> int) list \<Rightarrow> pystr \<Rightarrow> pyfloat option" where
  "spec_daily_average records d =
     (if spec_scores records d = [] then None
      else Some (Finite (round_double (spec_mean records d))))"

text \<open>
  The sparkline glyph of one element: a present value is clamped to \<open>[1, 10]\<close>
  (not-a-number counts as 10, as \<open>min(10.0, v)\<close> makes it) and mapped to the glyph of
  index \<open>round((v - 1) / 9 * 7)\<close> clamped to \<open>[0, 7]\<close>, each operation of the formula
  rounded to the nearest double; an absent value is the placeholder.
\<close>

definition spec_clamp :: "pyfloat \<Rightarrow> real" where
  "spec_clamp v =
     (case v of Finite x \<Rightarrow> max 1 (min 10 x) | PosInf \<Rightarrow> 10 | NegInf \<Rightarrow> 1 | NaN \<Rightarrow> 10)"

definition spec_index :: "pyfloat \<Rightarrow> int" where
  "spec_index v =
     max 0 (min 7 (round_half_even
       (round_double (round_double (round_double (spec_clamp v - 1) / 9) * 7))))"

definition spec_glyph :: "pyfloat option \<Rightarrow> nat" where
  "spec_glyph x = (case x of None \<Rightarrow> 0xB7 | Some v \<Rightarrow> blocks ! nat (spec_index v))"

text \<open>
  Score to tier: \<open>score \<le> 4\<close> is low, \<open>5 \<le> score \<le> 7\<close> is mid, \<open>score \<ge> 8\<close> is high; the
  pool of a tier is its list in the message bank, or one built-in message when that list
  is empty or absent.
\<close>

definition spec_tier :: "int \<Rightarrow> pystr \<Rightarrow> bool" where
  "spec_tier score t \<longleftrightarrow>
     (score \<le> 4 \<and> t = str ''low'') \<or> (5 \<le> score \<and> score \<le> 7 \<and> t = str ''mid'')
     \<or> (8 \<le> score \<and> t = str ''high'')"

definition spec_builtin :: "pystr \<Rightarrow> pystr" where
  "spec_builtin t =
     (if t = str ''low'' then builtin_low
      else if t = str ''mid'' then builtin_mid else builtin_high)"

definition spec_pool :: "(pystr \<rightharpoonup> pystr list) \<Rightarrow> pystr \<Rightarrow> pystr list" where
  "spec_pool messages t =
     (case messages t of
        None \<Rightarrow> [spec_builtin t]
      | Some l \<Rightarrow> if l = [] then [spec_builtin t] else l)"

text \<open>The excluded texts: the exclusion set together with the single exclusion.\<close>

definition spec_excluded :: "pystr option \<Rightarrow> pystr set option \<Rightarrow> pystr set" where
  "spec_excluded exclude excludes =
     (case excludes of None \<Rightarrow> {} | Some S \<Rightarrow> S)
     \<union> (case exclude of None \<Rightarrow> {} | Some e \<Rightarrow> {e})"

text \<open>
  The recent-message set of the data rows: the 3rd field of every row with at least 3
  fields whose stripped date field parses to a day of the window \<open>today - (W - 1), \<dots>, today\<close>.
\<close>

definition spec_in_window :: "interp \<Rightarrow> int \<Rightarrow> int \<Rightarrow> row \<Rightarrow> bool" where
  "spec_in_window I today W r \<longleftrightarrow>
     3 \<le> length r \<and>
     (case fromisoformat I (strip (r ! 0)) of
        None \<Rightarrow> False
      | Some d \<Rightarrow> today - (W - 1) \<le> d \<and> d \<le> today)"

definition spec_recent :: "interp \<Rightarrow> int \<Rightarrow> int \<Rightarrow> row list \<Rightarrow> pystr set" where
  "spec_recent I today W rows = (\<lambda>r. r ! 2) ` set (filter (spec_in_window I today W) rows)"

section \<open>Example logs\<close>

definition sample_log :: csvfile where
  "sample_log =
     Present [new_header,
              [str ''2024-01-01'', str ''3'', str ''a'', str ''''],
              [str '' 2024-01-01'', str ''5'', str ''b'', str ''slept well''],
              [str ''2024-01-03'', str ''7'', str ''c'', str ''''],
              [str ''2023-12-25'', str ''10'', str ''d'', str ''''],
              [str ''2024-01-02'', str ''x'', str ''e'', str '''']] True"

text \<open>A log whose only record has the score \<open>10 ^ 309\<close>, written with its 310 digits.\<close>

definition overflow_log :: csvfile where
  "overflow_log =
     Present [new_header,
              [str ''2024-01-03'', 0x31 # replicate 309 0x30, str ''a'', str '''']] True"

text \<open>
  The file \<open>f\<close> when the reader raises after it has yielded \<open>k\<close> rows: an I/O error, or
  bytes further on that are not UTF-8.
\<close>

definition interrupted :: "nat \<Rightarrow> csvfile \<Rightarrow> csvfile" where
  "interrupted k f =
     (case f of Missing \<Rightarrow> Missing | Present rows ok \<Rightarrow> Present (take k rows) False)"

section \<open>Rounding to the nearest double\<close>

lemma round_half_even_error: "\<bar>real_of_int (round_half_even x) - x\<bar> \<le> 1 / 2"
  unfolding round_half_even_def Let_def by (auto; linarith)

lemma round_half_even_of_int: "round_half_even (real_of_int n) = n"
  by (simp add: round_half_even_def)

lemma round_half_even_ge: "real_of_int n \<le> x \<Longrightarrow> n \<le> round_half_even x"
proof -
  assume "real_of_int n \<le> x"
  then have "n \<le> \<lfloor>x\<rfloor>" by (simp add: le_floor_iff)
  then show ?thesis by (auto simp: round_half_even_def Let_def)
qed

lemma ulp_pos: "0 < ulp x"
  by (simp add: ulp_def)

lemma ulp_le: "x \<noteq> 0 \<Longrightarrow> ulp x \<le> max \<bar>x\<bar> 1"
proof -
  assume x: "x \<noteq> 0"
  show ?thesis
  proof (cases "- 1022 \<le> \<lfloor>log 2 \<bar>x\<bar>\<rfloor>")
    case True
    then have e: "float_exponent x = \<lfloor>log 2 \<bar>x\<bar>\<rfloor>" by (simp add: float_exponent_def)
    have "real_of_int (\<lfloor>log 2 \<bar>x\<bar>\<rfloor> - 52) \<le> log 2 \<bar>x\<bar>" by linarith
    then have "2 powr real_of_int (\<lfloor>log 2 \<bar>x\<bar>\<rfloor> - 52) \<le> 2 powr log 2 \<bar>x\<bar>"
      by (intro powr_mono) simp_all
    also have "\<dots> = \<bar>x\<bar>" using x by simp
    finally show ?thesis by (simp add: ulp_def e)
  next
    case False
    then have e: "float_exponent x = - 1022" by (simp add: float_exponent_def)
    have "2 powr real_of_int (- 1022 - 52) \<le> 2 powr 0"
      by (intro powr_mono) simp_all
    then show ?thesis by (simp add: ulp_def e)
  qed
qed

text \<open>Rounding moves a number by at most half a unit in the last place.\<close>

lemma round_double_bound: "\<bar>round_double x\<bar> \<le> 2 * \<bar>x\<bar> + 1"
proof (cases "x = 0")
  case True
  then show ?thesis by (simp add: round_double_def)
next
  case False
  let ?u = "ulp x"
  let ?q = "x / ?u"
  have u: "0 < ?u" by (rule ulp_pos)
  have "real_of_int (round_half_even ?q) * ?u - x = (real_of_int (round_half_even ?q) - ?q) * ?u"
    using u by (simp add: left_diff_distrib)
  then have "\<bar>real_of_int (round_half_even ?q) * ?u - x\<bar>
      = \<bar>real_of_int (round_half_even ?q) - ?q\<bar> * ?u"
    using u by (simp add: abs_mult)
  also have "\<dots> \<le> 1 / 2 * ?u"
    using u round_half_even_error [of ?q] by (intro mult_right_mono) simp_all
  also have "\<dots> \<le> 1 / 2 * max \<bar>x\<bar> 1"
    using ulp_le [OF False] by simp
  finally have "\<bar>round_double x - x\<bar> \<le> 1 / 2 * max \<bar>x\<bar> 1"
    using False by (simp add: round_double_def)
  moreover have "0 \<le> \<bar>round_double x - x\<bar>"
    by simp
  ultimately have d: "\<bar>round_double x - x\<bar> \<le> max \<bar>x\<bar> 1"
    by (simp only: mult.commute [of "1 / 2"])
  have "\<bar>round_double x\<bar> \<le> \<bar>round_double x - x\<bar> + \<bar>x\<bar>"
    by arith
  also have "\<dots> \<le> max \<bar>x\<bar> 1 + \<bar>x\<bar>"
    using d by simp
  also have "\<dots> \<le> 2 * \<bar>x\<bar> + 1"
    by simp
  finally show ?thesis .
qed

lemma float_exponent_eval:
  assumes "2 powr real_of_int e \<le> \<bar>x\<bar>" "\<bar>x\<bar> < 2 powr real_of_int (e + 1)" "- 1022 \<le> e"
  shows "float_exponent x = e"
proof -
  have pos: "0 < \<bar>x\<bar>"
    using assms(1) by (smt (verit) powr_gt_zero)
  have "\<lfloor>log 2 \<bar>x\<bar>\<rfloor> = e"
    using assms(1,2) pos by (subst floor_log_eq_powr_iff) simp_all
  with assms(3) show ?thesis by (simp add: float_exponent_def)
qed

text \<open>How to compute \<open>round_double x\<close> once the exponent of \<open>x\<close> is known.\<close>

lemma round_double_eval:
  assumes "2 powr real_of_int e \<le> \<bar>x\<bar>" "\<bar>x\<bar> < 2 powr real_of_int (e + 1)" "- 1022 \<le> e"
  shows "round_double x
         = real_of_int (round_half_even (x / 2 powr real_of_int (e - 52)))
           * 2 powr real_of_int (e - 52)"
proof -
  have "x \<noteq> 0" using assms(1) by (smt (verit) powr_gt_zero)
  then show ?thesis
    by (simp add: round_double_def ulp_def float_exponent_eval [OF assms])
qed

text \<open>A quotient of \<open>2 ^ 1024\<close> or more rounds to a number beyond the doubles.\<close>

lemma round_double_overflow:
  assumes "2 ^ 1024 \<le> x"
  shows "2 ^ 1024 \<le> round_double x"
proof -
  have x: "0 < x" using assms by (smt (verit) zero_less_power)
  let ?e = "\<lfloor>log 2 \<bar>x\<bar>\<rfloor>"
  have "(2::real) powr 1024 = 2 ^ 1024"
    by (simp only: powr_numeral)
  with assms have "2 powr 1024 \<le> x" by simp
  then have l: "1024 \<le> log 2 x"
    using x by (simp only: le_log_iff [of 2 x 1024, OF _ x] one_less_numeral_iff semiring_norm)
  then have e1024: "1024 \<le> ?e" using x by (simp add: le_floor_iff)
  then have fe: "float_exponent x = ?e" by (simp add: float_exponent_def)
  have pe: "2 powr real_of_int ?e \<le> x"
  proof -
    have "2 powr real_of_int ?e \<le> 2 powr log 2 \<bar>x\<bar>" by (intro powr_mono) simp_all
    then show ?thesis using x by simp
  qed
  have u: "ulp x = 2 powr real_of_int (?e - 52)" by (simp add: ulp_def fe)
  have "real_of_int (2 ^ 52) = 2 powr real_of_int ?e / ulp x"
    by (simp add: u powr_diff [symmetric])
  also have "\<dots> \<le> x / ulp x"
    using pe ulp_pos [of x] by (simp add: divide_right_mono)
  finally have "2 ^ 52 \<le> round_half_even (x / ulp x)"
    by (rule round_half_even_ge)
  then have "real_of_int (2 ^ 52) * ulp x \<le> real_of_int (round_half_even (x / ulp x)) * ulp x"
    using ulp_pos [of x] by (intro mult_right_mono) simp_all
  moreover have "real_of_int (2 ^ 52) * ulp x = 2 powr real_of_int ?e"
    by (simp add: u powr_diff)
  moreover have "(2::real) ^ 1024 \<le> 2 powr real_of_int ?e"
  proof -
    have "2 powr real_of_int 1024 \<le> 2 powr real_of_int ?e"
      using e1024 by (intro powr_mono) simp_all
    then show ?thesis by simp
  qed
  ultimately show ?thesis using x by (simp add: round_double_def)
qed

text \<open>A number with a significand of at most 53 bits is a double: rounding keeps it.\<close>

lemma round_double_exact:
  assumes "x = real_of_int m * 2 powr real_of_int k" "\<bar>m\<bar> < 2 ^ 53" "- 1074 \<le> k"
  shows "round_double x = x"
proof (cases "m = 0")
  case True
  with assms(1) show ?thesis by (simp add: round_double_def)
next
  case False
  then have x0: "x \<noteq> 0" using assms(1) by simp
  have ax: "\<bar>x\<bar> = real_of_int \<bar>m\<bar> * 2 powr real_of_int k"
    using assms(1) by (simp add: abs_mult)
  have "real_of_int \<bar>m\<bar> < 2 ^ 53"
    using assms(2) by (metis of_int_less_numeral_power_cancel_iff)
  then have "\<bar>x\<bar> < 2 ^ 53 * 2 powr real_of_int k"
    unfolding ax by (intro mult_strict_right_mono) simp_all
  also have "\<dots> = 2 powr real_of_int (53 + k)"
    by (simp add: powr_add)
  finally have "log 2 \<bar>x\<bar> < real_of_int (53 + k)"
    using x0 by (simp add: log_less_iff)
  then have "\<lfloor>log 2 \<bar>x\<bar>\<rfloor> \<le> 52 + k"
    by linarith
  with assms(3) have e: "float_exponent x - 52 \<le> k"
    by (simp add: float_exponent_def)
  define E where "E = float_exponent x - 52"
  define j where "j = nat (k - E)"
  have u: "ulp x = 2 powr real_of_int E"
    by (simp add: ulp_def E_def)
  have "real_of_int k = real_of_int E + real j"
    using e by (simp add: j_def E_def)
  then have "2 powr real_of_int k = 2 powr real_of_int E * 2 ^ j"
    by (simp add: powr_add powr_realpow)
  with assms(1) u have "x = real_of_int (m * 2 ^ j) * ulp x"
    by simp
  then have q: "x / ulp x = real_of_int (m * 2 ^ j)"
    using ulp_pos [of x] by (simp add: field_simps)
  have "round_double x = real_of_int (m * 2 ^ j) * ulp x"
    using x0 by (simp only: round_double_def q round_half_even_of_int if_False)
  also have "\<dots> = x / ulp x * ulp x" by (simp only: q)
  also have "\<dots> = x" using ulp_pos [of x] by simp
  finally show ?thesis .
qed

lemma round_double_int: "\<bar>n\<bar> < 2 ^ 53 \<Longrightarrow> round_double (real_of_int n) = real_of_int n"
  using round_double_exact [of "real_of_int n" n 0] by simp

lemma round_double_half:
  "\<bar>n\<bar> < 2 ^ 53 \<Longrightarrow> round_double (real_of_int n / 2) = real_of_int n / 2"
  using round_double_exact [of "real_of_int n / 2" n "- 1"] by (simp add: powr_minus)

lemma round_float_finite:
  "\<bar>round_double x\<bar> < 2 ^ 1024 \<Longrightarrow> round_float x = Finite (round_double x)"
  by (auto simp: round_float_def Let_def)

lemma round_float_bounded:
  assumes "\<bar>x\<bar> \<le> 100"
  shows "round_float x = Finite (round_double x)"
proof -
  have "\<bar>round_double x\<bar> \<le> 2 * \<bar>x\<bar> + 1" by (rule round_double_bound)
  also have "\<dots> \<le> 201" using assms by simp
  also have "\<dots> < (2::real) ^ 1024" by simp
  finally show ?thesis by (rule round_float_finite)
qed

lemma truediv_finite:
  "b \<noteq> 0 \<Longrightarrow> \<not> double_overflow (real_of_int a / real_of_int b) \<Longrightarrow>
   truediv a b = Inr (Finite (round_double (real_of_int a / real_of_int b)))"
  by (simp add: truediv_def double_overflow_def round_float_finite)

lemma truediv_overflow:
  assumes "0 < b" "2 ^ 1024 * real_of_int b \<le> real_of_int a"
  shows "truediv a b = Inl OverflowError"
proof -
  from assms have "2 ^ 1024 \<le> real_of_int a / real_of_int b"
    by (simp add: pos_le_divide_eq)
  then have "2 ^ 1024 \<le> round_double (real_of_int a / real_of_int b)"
    by (rule round_double_overflow)
  with assms(1) show ?thesis
    by (simp add: truediv_def round_float_def Let_def)
qed

text \<open>The error of rounding, absolute and relative.\<close>

lemma round_double_error: "\<bar>round_double x - x\<bar> \<le> ulp x / 2"
proof (cases "x = 0")
  case True
  then show ?thesis using ulp_pos [of x] by (simp add: round_double_def)
next
  case False
  let ?u = "ulp x"
  let ?q = "x / ?u"
  have u: "0 < ?u" by (rule ulp_pos)
  have "real_of_int (round_half_even ?q) * ?u - x = (real_of_int (round_half_even ?q) - ?q) * ?u"
    using u by (simp add: left_diff_distrib)
  then have "\<bar>real_of_int (round_half_even ?q) * ?u - x\<bar>
      = \<bar>real_of_int (round_half_even ?q) - ?q\<bar> * ?u"
    using u by (simp add: abs_mult)
  also have "\<dots> \<le> 1 / 2 * ?u"
    using u round_half_even_error [of ?q] by (intro mult_right_mono) simp_all
  finally show ?thesis
    using False by (simp add: round_double_def)
qed

lemma ulp_relative:
  assumes "x \<noteq> 0"
  shows "ulp x \<le> max \<bar>x\<bar> 1 * 2 powr (- 52)"
proof (cases "- 1022 \<le> \<lfloor>log 2 \<bar>x\<bar>\<rfloor>")
  case True
  then have e: "float_exponent x = \<lfloor>log 2 \<bar>x\<bar>\<rfloor>" by (simp add: float_exponent_def)
  have "real_of_int (\<lfloor>log 2 \<bar>x\<bar>\<rfloor> - 52) = real_of_int \<lfloor>log 2 \<bar>x\<bar>\<rfloor> + (- 52)"
    by simp
  then have "ulp x = 2 powr real_of_int \<lfloor>log 2 \<bar>x\<bar>\<rfloor> * 2 powr (- 52)"
    unfolding ulp_def e by (simp only: powr_add)
  also have "\<dots> \<le> 2 powr log 2 \<bar>x\<bar> * 2 powr (- 52)"
    by (intro mult_right_mono powr_mono) simp_all
  also have "\<dots> = \<bar>x\<bar> * 2 powr (- 52)" using assms by simp
  also have "\<dots> \<le> max \<bar>x\<bar> 1 * 2 powr (- 52)"
    by (intro mult_right_mono) simp_all
  finally show ?thesis .
next
  case False
  then have "float_exponent x = - 1022"
    by (simp add: float_exponent_def)
  then have "ulp x = 2 powr (- 1022 + (- 52))"
    by (simp add: ulp_def)
  also have "\<dots> = 2 powr (- 1022) * 2 powr (- 52)"
    by (simp only: powr_add)
  also have "\<dots> \<le> 2 powr 0 * 2 powr (- 52)"
    by (intro mult_right_mono powr_mono) simp_all
  also have "\<dots> \<le> max \<bar>x\<bar> 1 * 2 powr (- 52)"
    by (intro mult_right_mono) simp_all
  finally show ?thesis .
qed

lemma round_double_relative:
  assumes "\<bar>x\<bar> \<le> B" "1 \<le> B"
  shows "\<bar>round_double x - x\<bar> \<le> B / 2 ^ 53"
proof (cases "x = 0")
  case True
  with assms show ?thesis by (simp add: round_double_def)
next
  case False
  have "(2::real) powr (- 52) = inverse (2 powr 52)"
    by (rule powr_minus)
  also have "(2::real) powr 52 = 2 ^ 52"
    by (simp only: powr_numeral)
  finally have p: "(2::real) powr (- 52) = inverse (2 ^ 52)" .
  from assms have "max \<bar>x\<bar> 1 \<le> B" by simp
  then have "max \<bar>x\<bar> 1 * 2 powr (- 52) \<le> B * 2 powr (- 52)"
    by (intro mult_right_mono) simp_all
  with ulp_relative [OF False] have "ulp x \<le> B * inverse (2 ^ 52)"
    unfolding p by linarith
  then have "ulp x / 2 \<le> B / 2 ^ 53" by (simp add: field_simps)
  then show ?thesis using round_double_error [of x] by linarith
qed

section \<open>Evaluation on concrete inputs\<close>

lemma replicate_numeral: "replicate (numeral k) x = x # replicate (pred_numeral k) x"
  by (simp add: numeral_eq_Suc)

lemma str_empty: "str '''' = []"
  by (simp add: str_def)

lemmas string_simps = str_def strip_def is_unicode_space_def

lemmas int_simps =
  py_int_def to_ascii_def is_ascii_space_def is_ascii_digit_def decimal_value_def Let_def

lemmas date_simps =
  isoformat_def ord2ymd_def zero_pad_def decimal.simps replicate_numeral
  DAYS_BEFORE_MONTH_def DAYS_IN_MONTH_def date_sub_def timedelta_def MAXORDINAL_def
  fromisoformat_strict_def ymd2ord_def days_in_month_def days_before_year_def is_leap_def
  sample_interp_def

section \<open>Schema migration\<close>

lemma three_fields: "length r = 3 \<Longrightarrow> [r ! 0, r ! Suc 0, r ! 2] = r"
  by (auto simp: numeral_3_eq_3 numeral_2_eq_2 length_Suc_conv)

lemma write_rows_map: "write_rows out rs = out @ map spec_migrate_row rs"
  by (induction rs arbitrary: out) (simp_all add: spec_migrate_row_def three_fields str_empty)

lemma length_new_header: "length new_header = 4"
  by (simp add: new_header_def)

lemma upgrade_unreadable: "read_header_rows f = Inl e \<Longrightarrow> upgrade_csv_schema f = (f, False)"
  by (cases e) (simp_all add: upgrade_csv_schema_def)

lemma upgrade_v1:
  "length h = 3 \<Longrightarrow>
   upgrade_csv_schema (Present (h # rows) True)
     = (Present (new_header # map spec_migrate_row rows) True, True)"
  by (simp add: upgrade_csv_schema_def read_header_rows_def write_rows_map)

lemma upgrade_other:
  "length h \<noteq> 3 \<Longrightarrow> upgrade_csv_schema (Present (h # rows) ok) = (Present (h # rows) ok, False)"
  by (cases ok) (simp_all add: upgrade_csv_schema_def read_header_rows_def)

lemma upgrade_empty: "upgrade_csv_schema (Present [] True) = (Present [new_header] True, True)"
  by (simp add: upgrade_csv_schema_def read_header_rows_def)

lemma upgrade_cases:
  "upgrade_csv_schema f = (f, False)
   \<or> (\<exists>rows. upgrade_csv_schema f = (Present (new_header # rows) True, True))"
proof (cases f)
  case Missing
  then show ?thesis by (simp add: upgrade_csv_schema_def read_header_rows_def)
next
  case (Present rs ok)
  show ?thesis
  proof (cases ok)
    case False
    with Present show ?thesis by (simp add: upgrade_csv_schema_def read_header_rows_def)
  next
    case True
    show ?thesis
    proof (cases rs)
      case Nil
      with Present True show ?thesis by (simp add: upgrade_empty)
    next
      case (Cons h rows)
      show ?thesis
      proof (cases "length h = 3")
        case True
        with Present \<open>ok\<close> Cons show ?thesis by (simp add: upgrade_v1)
      next
        case False
        with Present Cons show ?thesis by (simp add: upgrade_other)
      qed
    qed
  qed
qed

text \<open>
  C2. Migration is idempotent. A second run of \<open>upgrade_csv_schema\<close> on the file the first
  run left does not open the file for writing, so the file stays byte for byte what the
  first run made it; and on a file whose header has 4 or more fields no rewrite occurs.
\<close>

theorem upgrade_csv_schema_idempotent:
  "upgrade_csv_schema (fst (upgrade_csv_schema f)) = (fst (upgrade_csv_schema f), False)
   \<and> (4 \<le> length h \<longrightarrow>
        upgrade_csv_schema (Present (h # rows) ok) = (Present (h # rows) ok, False))"
proof
  from upgrade_cases [of f]
  show "upgrade_csv_schema (fst (upgrade_csv_schema f)) = (fst (upgrade_csv_schema f), False)"
  proof
    assume "upgrade_csv_schema f = (f, False)"
    then show ?thesis by simp
  next
    assume "\<exists>rows. upgrade_csv_schema f = (Present (new_header # rows) True, True)"
    then obtain rows where "upgrade_csv_schema f = (Present (new_header # rows) True, True)" ..
    then show ?thesis by (simp add: upgrade_other length_new_header)
  qed
next
  show "4 \<le> length h \<longrightarrow>
        upgrade_csv_schema (Present (h # rows) ok) = (Present (h # rows) ok, False)"
    by (simp add: upgrade_other)
qed

theorem upgrade_csv_schema_idempotent_witness:
  "upgrade_csv_schema (fst (upgrade_csv_schema v1_example))
     = (Present [new_header, [str ''2024-01-01'', str ''5'', str ''hi'', str '''']] True, False)
   \<and> 4 \<le> length new_header
   \<and> upgrade_csv_schema (Present [new_header, [str ''2024-01-01'']] True)
       = (Present [new_header, [str ''2024-01-01'']] True, False)"
proof -
  have first: "fst (upgrade_csv_schema v1_example)
      = Present [new_header, [str ''2024-01-01'', str ''5'', str ''hi'', str '''']] True"
    by (simp add: v1_example_def upgrade_v1 spec_migrate_row_def)
  from upgrade_csv_schema_idempotent [of v1_example new_header "[[str ''2024-01-01'']]" True]
  show ?thesis
    by (simp add: first length_new_header)
qed

text \<open>
  C3. When reading the log file fails during \<open>upgrade_csv_schema\<close> (the file is missing,
  or the reader raises), the function returns with the file as it was and without having
  opened it for writing. The function returns a file in every case: its two \<open>except\<close>
  clauses end in \<open>return\<close>, and no error leaves it.
\<close>

theorem upgrade_csv_schema_read_failure:
  "upgrade_csv_schema Missing = (Missing, False)
   \<and> upgrade_csv_schema (Present rows False) = (Present rows False, False)
   \<and> (read_header_rows f = Inl e \<longrightarrow> upgrade_csv_schema f = (f, False))"
  by (simp add: upgrade_unreadable read_header_rows_def)

theorem upgrade_csv_schema_read_failure_witness:
  "read_header_rows (Present [[str ''date'', str ''score'', str ''message'']] False) = Inl ReadError
   \<and> upgrade_csv_schema (Present [[str ''date'', str ''score'', str ''message'']] False)
       = (Present [[str ''date'', str ''score'', str ''message'']] False, False)"
  using upgrade_csv_schema_read_failure
    [of "[[str ''date'', str ''score'', str ''message'']]"
        "Present [[str ''date'', str ''score'', str ''message'']] False" ReadError]
  by (simp add: read_header_rows_def)

section \<open>Reading the records\<close>

lemma records_loop_filter:
  "records_loop I rs out = out @ map (spec_record I) (filter (spec_valid_row I) rs)"
  by (induction rs arbitrary: out)
     (auto simp: spec_valid_row_def spec_record_def Let_def split: sum.splits)

lemma dm_records_loop_eq: "dm_records_loop I rs out = records_loop I rs out"
  by (induction rs arbitrary: out) (simp_all add: Let_def split: sum.splits)

lemma dm_read_all_records_eq: "dm_read_all_records I f = read_all_records I f"
  by (cases f) (simp_all add: dm_read_all_records_def read_all_records_def dm_records_loop_eq)

lemma read_all_records_present:
  "read_all_records I (Present rows True)
     = Inr (map (spec_record I) (filter (spec_valid_row I) (drop 1 rows)))"
  by (simp add: read_all_records_def records_loop_filter)

lemma py_int_5: "py_int I (str ''5'') = Inr 5"
  by (simp add: int_simps str_def)

text \<open>
  C6. Migrating a file whose header has exactly 3 fields rewrites it with the 4-field
  header, appends an empty 4th field to every 3-field data row and passes every other row
  through unchanged. For the v1 file with the single row \<open>2024-01-01, 5, hi\<close> the header
  afterwards has 4 columns and \<open>read_all_records\<close> yields \<open>[("2024-01-01", 5)]\<close>.
\<close>

theorem upgrade_csv_schema_v1:
  "(length h = 3 \<longrightarrow>
      upgrade_csv_schema (Present (h # rows) True)
        = (Present (new_header # map spec_migrate_row rows) True, True))
   \<and> length new_header = 4
   \<and> upgrade_csv_schema v1_example
       = (Present [new_header, [str ''2024-01-01'', str ''5'', str ''hi'', str '''']] True, True)
   \<and> read_all_records I (fst (upgrade_csv_schema v1_example)) = Inr [(str ''2024-01-01'', 5)]"
proof -
  have migrated: "upgrade_csv_schema v1_example
      = (Present [new_header, [str ''2024-01-01'', str ''5'', str ''hi'', str '''']] True, True)"
    by (simp add: v1_example_def upgrade_v1 spec_migrate_row_def)
  have "read_all_records I
          (Present [new_header, [str ''2024-01-01'', str ''5'', str ''hi'', str '''']] True)
        = Inr [(str ''2024-01-01'', 5)]"
    by (simp add: read_all_records_def py_int_5 Let_def) (simp add: string_simps)
  with migrated show ?thesis
    by (simp add: upgrade_v1 length_new_header)
qed

theorem upgrade_csv_schema_v1_witness:
  "length [str ''date'', str ''score'', str ''message''] = 3
   \<and> upgrade_csv_schema
        (Present [[str ''date'', str ''score'', str ''message''],
                  [str ''2024-01-01'', str ''5'', str ''hi''],
                  [str ''2024-01-02'', str ''7''],
                  [str ''2024-01-03'', str ''9'', str ''yo'', str ''fine'']] True)
       = (Present [new_header,
                   [str ''2024-01-01'', str ''5'', str ''hi'', str ''''],
                   [str ''2024-01-02'', str ''7''],
                   [str ''2024-01-03'', str ''9'', str ''yo'', str ''fine'']] True, True)"
  using upgrade_csv_schema_v1
    [of "[str ''date'', str ''score'', str ''message'']"
        "[[str ''2024-01-01'', str ''5'', str ''hi''],
          [str ''2024-01-02'', str ''7''],
          [str ''2024-01-03'', str ''9'', str ''yo'', str ''fine'']]"]
  by (simp add: spec_migrate_row_def)

text \<open>
  C7, as the specification states it, fails on the code when the reader itself fails:
  neither copy of the function has a \<open>try\<close> around the loop over the reader, so when the
  reader raises (here after the first data row of the example log) the exception leaves
  the function, where the specification has the list of the valid rows.
\<close>

theorem read_all_records_counterexample:
  "read_all_records sample_interp (interrupted 2 sample_log) = Inl ReadError
   \<and> dm_read_all_records sample_interp (interrupted 2 sample_log) = Inl ReadError"
  by (simp add: read_all_records_def dm_read_all_records_def interrupted_def sample_log_def)

text \<open>
  C7, amended. For every file that the reader reads to its end, \<open>read_all_records\<close> (and
  its copy in \<open>data_manager.py\<close>) returns, in file order, one (day, score) pair for every
  data row with at least 2 fields and an integer score field; every other row is skipped
  without an error, and a missing file gives the empty list. When the reader fails, both
  raise.
\<close>

theorem read_all_records_rows:
  "read_all_records I (Present rows True)
     = Inr (map (spec_record I) (filter (spec_valid_row I) (drop 1 rows)))
   \<and> read_all_records I Missing = Inr []
   \<and> dm_read_all_records I (Present rows True)
       = Inr (map (spec_record I) (filter (spec_valid_row I) (drop 1 rows)))
   \<and> dm_read_all_records I Missing = Inr []
   \<and> read_all_records I (Present rows False) = Inl ReadError
   \<and> dm_read_all_records I (Present rows False) = Inl ReadError"
  by (simp add: dm_read_all_records_eq read_all_records_present) (simp add: read_all_records_def)

theorem read_all_records_rows_witness:
  "read_all_records sample_interp
     (Present [new_header,
               [str '' 2024-01-01 '', str ''5'', str ''hi'', str ''''],
               [str ''2024-01-02''],
               [str ''2024-01-03'', str ''five'', str ''yo'', str ''''],
               [],
               [str ''2024-01-04'', str '' -3 '']] True)
     = Inr [(str ''2024-01-01'', 5), (str ''2024-01-04'', -3)]"
proof -
  have five: "py_int sample_interp (str ''five'') = Inl ValueError"
    by (simp add: int_simps str_def)
  have minus: "py_int sample_interp (str '' -3 '') = Inr (-3)"
    by (simp add: int_simps str_def)
  have s1: "strip (str '' 2024-01-01 '') = str ''2024-01-01''"
    by (simp add: string_simps)
  have s4: "strip (str ''2024-01-04'') = str ''2024-01-04''"
    by (simp add: string_simps)
  show ?thesis
    using read_all_records_rows [of sample_interp
      "[new_header,
        [str '' 2024-01-01 '', str ''5'', str ''hi'', str ''''],
        [str ''2024-01-02''],
        [str ''2024-01-03'', str ''five'', str ''yo'', str ''''],
        [],
        [str ''2024-01-04'', str '' -3 '']]"]
    by (simp add: spec_valid_row_def spec_record_def py_int_5 five minus s1 s4)
qed

section \<open>The sparkline\<close>

lemma length_blocks: "length blocks = 8"
  by (simp add: blocks_def)

lemma dm_blocks_eq: "dm_blocks = blocks"
  by (simp add: dm_blocks_def blocks_def)

lemma spec_clamp_bounds: "1 \<le> spec_clamp v \<and> spec_clamp v \<le> 10"
  by (cases v) (simp_all add: spec_clamp_def)

lemma clamp_spec: "py_max (Finite 1) (py_min (Finite 10) v) = Finite (spec_clamp v)"
  by (cases v) (auto simp: py_max_def py_min_def spec_clamp_def)

text \<open>
  The clamped value is between 1 and 10, so no operation of the formula leaves the finite
  doubles, the divisor is not zero and \<open>round\<close> does not raise.
\<close>

lemma block_index_spec: "block_index v = Inr (spec_index v)"
proof -
  define c where "c = spec_clamp v"
  define y1 where "y1 = round_double (c - 1)"
  define y2 where "y2 = round_double (y1 / 9)"
  have c: "1 \<le> c" "c \<le> 10"
    using spec_clamp_bounds [of v] by (simp_all add: c_def)
  have b1: "\<bar>y1\<bar> \<le> 19"
    using round_double_bound [of "c - 1"] c by (simp add: y1_def)
  have b2: "\<bar>y2\<bar> \<le> 6"
    using round_double_bound [of "y1 / 9"] b1 by (simp add: y2_def)
  have s1: "round_float (c - 1) = Finite y1"
    unfolding y1_def using c by (intro round_float_bounded) simp
  have s2: "round_float (y1 / 9) = Finite y2"
    unfolding y2_def using b1 by (intro round_float_bounded) simp
  have s3: "round_float (y2 * 7) = Finite (round_double (y2 * 7))"
    using b2 by (intro round_float_bounded) simp
  show ?thesis
    by (simp add: block_index_def clamp_spec length_blocks spec_index_def
        c_def [symmetric] s1 y1_def [symmetric] s2 y2_def [symmetric] s3)
qed

lemma dm_block_index_eq: "dm_block_index v = block_index v"
  unfolding dm_block_index_def block_index_def dm_blocks_eq by (rule refl)

lemma sparkline_loop_map:
  "sparkline_loop vs out = Inr (out @ map (\<lambda>x. [spec_glyph x]) vs)"
  by (induction vs out rule: sparkline_loop.induct)
     (simp_all add: spec_glyph_def block_index_spec)

lemma to_sparkline_map: "to_sparkline vs = Inr (map spec_glyph vs)"
  by (simp add: to_sparkline_def sparkline_loop_map concat_map_singleton)

lemma dm_sparkline_loop_eq: "dm_sparkline_loop vs out = sparkline_loop vs out"
  by (induction vs out rule: sparkline_loop.induct)
     (simp_all add: dm_blocks_eq dm_block_index_eq split: sum.splits)

lemma dm_to_sparkline_eq: "dm_to_sparkline vs = to_sparkline vs"
  by (simp add: dm_to_sparkline_def to_sparkline_def dm_sparkline_loop_eq)

lemma spec_index_bounds: "0 \<le> spec_index v \<and> spec_index v \<le> 7"
  by (simp add: spec_index_def)

lemma spec_glyph_present: "spec_glyph (Some v) \<in> set blocks"
proof -
  have "nat (spec_index v) < length blocks"
    using spec_index_bounds [of v] unfolding length_blocks by linarith
  then show ?thesis
    unfolding spec_glyph_def option.case by (rule nth_mem)
qed

lemma spec_glyph_absent: "spec_glyph None \<notin> set blocks"
  by (simp add: spec_glyph_def blocks_def)

text \<open>
  The index of some values. The formula gives the exact results \<open>7\<close> at 10 and \<open>3.5\<close> at
  5.5, which rounds to the even 4. At the doubles \<open>0x1.a492492492492p+0\<close> and
  \<open>0x1.76db6db6db6dbp+1\<close> the rounded product is exactly \<open>0.5\<close> and \<open>1.5\<close>, which round to
  the even 0 and 2.
\<close>

lemma spec_index_1: "spec_index (Finite 1) = 0"
  by (simp add: spec_index_def spec_clamp_def round_double_def round_half_even_def)

lemma spec_index_10: "spec_index (Finite 10) = 7"
proof -
  have c: "spec_clamp (Finite 10) - 1 = 9"
    by (simp add: spec_clamp_def)
  have 1: "round_double 9 = 9"
    using round_double_int [of 9] by simp
  have 2: "round_double (9 / 9) = 1"
    using round_double_int [of 1] by simp
  have 3: "round_double (1 * 7) = 7"
    using round_double_int [of 7] by simp
  have 4: "round_half_even 7 = 7"
    using round_half_even_of_int [of 7] by simp
  show ?thesis
    unfolding spec_index_def c 1 2 3 4 by simp
qed

lemma spec_index_above: "spec_index (Finite 12) = 7"
  using spec_index_10 by (simp add: spec_index_def spec_clamp_def)

lemma spec_index_below: "spec_index (Finite (- 3)) = 0"
  using spec_index_1 by (simp add: spec_index_def spec_clamp_def)

lemma spec_index_nan: "spec_index NaN = 7"
  using spec_index_10 by (simp add: spec_index_def spec_clamp_def)

lemma spec_index_half: "spec_index (Finite (11 / 2)) = 4"
proof -
  have c: "spec_clamp (Finite (11 / 2)) - 1 = 9 / 2"
    by (simp add: spec_clamp_def)
  have 1: "round_double (9 / 2) = 9 / 2"
    using round_double_half [of 9] by simp
  have 2: "round_double (9 / 2 / 9) = 1 / 2"
    using round_double_half [of 1] by simp
  have 3: "round_double (1 / 2 * 7) = 7 / 2"
    using round_double_half [of 7] by simp
  have 4: "round_half_even (7 / 2) = 4"
    by (simp add: round_half_even_def Let_def)
  show ?thesis
    unfolding spec_index_def c 1 2 3 4 by simp
qed

lemma spec_index_tie_0: "spec_index (Finite (7398770816394386 / 2 ^ 52)) = 0"
proof -
  have c: "spec_clamp (Finite (7398770816394386 / 2 ^ 52)) - 1 = 1447585594511945 / 2 ^ 51"
    by (simp add: spec_clamp_def)
  have 1: "round_double (1447585594511945 / 2 ^ 51) = 1447585594511945 / 2 ^ 51"
    using round_double_exact [of "1447585594511945 / 2 ^ 51" 1447585594511945 "- 51"]
    by (simp add: powr_minus)
  have 2: "round_double (1447585594511945 / 2 ^ 51 / 9) = 2573485501354569 / 2 ^ 55"
    by (subst round_double_eval [of "- 4"]) (simp_all add: powr_minus round_half_even_def Let_def)
  have 3: "round_double (2573485501354569 / 2 ^ 55 * 7) = 1 / 2"
    by (subst round_double_eval [of "- 2"]) (simp_all add: powr_minus round_half_even_def Let_def)
  have 4: "round_half_even (1 / 2) = 0"
    by (simp add: round_half_even_def Let_def)
  show ?thesis
    unfolding spec_index_def c 1 2 3 4 by simp
qed

lemma spec_index_tie_1: "spec_index (Finite (6594556597221083 / 2 ^ 51)) = 2"
proof -
  have c: "spec_clamp (Finite (6594556597221083 / 2 ^ 51)) - 1 = 4342756783535835 / 2 ^ 51"
    by (simp add: spec_clamp_def)
  have 1: "round_double (4342756783535835 / 2 ^ 51) = 4342756783535835 / 2 ^ 51"
    using round_double_exact [of "4342756783535835 / 2 ^ 51" 4342756783535835 "- 51"]
    by (simp add: powr_minus)
  have 2: "round_double (4342756783535835 / 2 ^ 51 / 9) = 7720456504063707 / 2 ^ 55"
    by (subst round_double_eval [of "- 3"]) (simp_all add: powr_minus round_half_even_def Let_def)
  have 3: "round_double (7720456504063707 / 2 ^ 55 * 7) = 3 / 2"
    by (subst round_double_eval [of 0]) (simp_all add: powr_minus round_half_even_def Let_def)
  have 4: "round_half_even (3 / 2) = 2"
    by (simp add: round_half_even_def Let_def)
  show ?thesis
    unfolding spec_index_def c 1 2 3 4 by simp
qed

text \<open>
  The formula in doubles is within \<open>1 / 2 ^ 48\<close> of the formula over the reals, so the index is
  an integer nearest to the real number \<open>(v - 1) / 9 * 7\<close>, up to that distance.
\<close>

lemma formula_near:
  assumes "1 \<le> c" "c \<le> 10"
  shows "\<bar>round_double (round_double (round_double (c - 1) / 9) * 7) - (c - 1) / 9 * 7\<bar>
           \<le> 1 / 2 ^ 48"
proof -
  define d :: real where "d = 1 / 2 ^ 53"
  define y1 where "y1 = round_double (c - 1)"
  define y2 where "y2 = round_double (y1 / 9)"
  define y3 where "y3 = round_double (y2 * 7)"
  have d: "0 < d" "d \<le> 1 / 100" by (simp_all add: d_def)
  have e1: "\<bar>y1 - (c - 1)\<bar> \<le> 9 * d"
    unfolding y1_def d_def using round_double_relative [of "c - 1" 9] assms by simp
  then have b2: "\<bar>y1 / 9\<bar> \<le> 2"
    using assms d by argo
  have e2: "\<bar>y2 - y1 / 9\<bar> \<le> 2 * d"
    unfolding y2_def d_def using round_double_relative [OF b2] by simp
  have b3: "\<bar>y2 * 7\<bar> \<le> 8"
    using e1 e2 assms d by argo
  have e3: "\<bar>y3 - y2 * 7\<bar> \<le> 8 * d"
    unfolding y3_def d_def using round_double_relative [OF b3] by simp
  have "\<bar>y3 - (c - 1) / 9 * 7\<bar> \<le> 32 * d"
    using e1 e2 e3 d by argo
  also have "32 * d = 1 / 2 ^ 48" by (simp add: d_def)
  finally show ?thesis by (simp only: y3_def y2_def y1_def)
qed

lemma clamp_index_near:
  fixes E y t :: real and r :: int
  assumes "0 \<le> E" "E \<le> 7" "\<bar>y - E\<bar> \<le> t" "\<bar>real_of_int r - y\<bar> \<le> 1 / 2" "0 \<le> t"
  shows "\<bar>real_of_int (max 0 (min 7 r)) - E\<bar> \<le> 1 / 2 + t"
proof -
  consider "r < 0" | "0 \<le> r" "r \<le> 7" | "7 < r" by linarith
  then show ?thesis
  proof cases
    case 1
    then have "real_of_int r \<le> - 1" by linarith
    then have "\<bar>0 - E\<bar> \<le> 1 / 2 + t"
      using assms by argo
    moreover from 1 have "max 0 (min 7 r) = 0" by simp
    ultimately show ?thesis
      by (simp only: of_int_0)
  next
    case 2
    have "\<bar>real_of_int r - E\<bar> \<le> 1 / 2 + t"
      using assms by argo
    moreover from 2 have "max 0 (min 7 r) = r" by simp
    ultimately show ?thesis
      by (simp only:)
  next
    case 3
    then have "8 \<le> real_of_int r" by linarith
    then have "\<bar>7 - E\<bar> \<le> 1 / 2 + t"
      using assms by argo
    moreover from 3 have "max 0 (min 7 r) = 7" by simp
    ultimately show ?thesis
      by (simp only: of_int_numeral)
  qed
qed

lemma spec_index_near:
  "\<bar>real_of_int (spec_index v) - (spec_clamp v - 1) / 9 * 7\<bar> \<le> 1 / 2 + 1 / 2 ^ 48"
proof -
  define c where "c = spec_clamp v"
  have c: "1 \<le> c" "c \<le> 10"
    using spec_clamp_bounds [of v] by (simp_all add: c_def)
  then have E: "0 \<le> (c - 1) / 9 * 7" "(c - 1) / 9 * 7 \<le> 7" by simp_all
  have "\<bar>real_of_int (max 0 (min 7 (round_half_even
            (round_double (round_double (round_double (c - 1) / 9) * 7)))))
          - (c - 1) / 9 * 7\<bar> \<le> 1 / 2 + 1 / 2 ^ 48"
    using E formula_near [OF c] round_half_even_error
    by (rule clamp_index_near) simp
  then show ?thesis
    by (simp only: spec_index_def c_def)
qed

text \<open>
  C9. \<open>to_sparkline\<close> (and its copy in \<open>data_manager.py\<close>) returns, for every series and
  without raising, one glyph per element of the series, in order: a present value \<open>v\<close> is
  clamped to \<open>[1, 10]\<close> and gives the glyph of index \<open>round((v - 1) / 9 * 7)\<close> clamped to
  \<open>[0, 7]\<close>, one of the 8 distinct block glyphs, in rising order; an absent value gives the
  placeholder, which is none of them. A series of \<open>k\<close> absent values is \<open>k\<close> placeholders,
  and the value 10 gives the highest glyph. The formula is evaluated as the code evaluates
  it, in double arithmetic with \<open>round\<close> to the even integer at a half: the index is an
  integer nearest to the real number \<open>(v - 1) / 9 * 7\<close> up to \<open>1 / 2 ^ 48\<close>; 5.5 has
  index 4, and the doubles \<open>0x1.a492492492492p+0\<close> and \<open>0x1.76db6db6db6dbp+1\<close>, whose
  products round to \<open>0.5\<close> and \<open>1.5\<close>, have indices 0 and 2.
\<close>

theorem to_sparkline_glyphs:
  "to_sparkline vs = Inr (map spec_glyph vs)
   \<and> dm_to_sparkline vs = Inr (map spec_glyph vs)
   \<and> length (map spec_glyph vs) = length vs
   \<and> spec_glyph (Some v) \<in> set blocks
   \<and> spec_glyph None \<notin> set blocks
   \<and> \<bar>real_of_int (spec_index v) - (spec_clamp v - 1) / 9 * 7\<bar> \<le> 1 / 2 + 1 / 2 ^ 48
   \<and> length blocks = 8 \<and> distinct blocks \<and> sorted blocks
   \<and> to_sparkline (replicate k None) = Inr (replicate k (spec_glyph None))
   \<and> to_sparkline [Some (Finite 10)] = Inr [last blocks]
   \<and> block_index (Finite (11 / 2)) = Inr 4
   \<and> block_index (Finite (7398770816394386 / 2 ^ 52)) = Inr 0
   \<and> block_index (Finite (6594556597221083 / 2 ^ 51)) = Inr 2"
proof (intro conjI)
  show "to_sparkline vs = Inr (map spec_glyph vs)"
    by (rule to_sparkline_map)
  show "dm_to_sparkline vs = Inr (map spec_glyph vs)"
    by (simp only: dm_to_sparkline_eq to_sparkline_map)
  show "length (map spec_glyph vs) = length vs"
    by simp
  show "spec_glyph (Some v) \<in> set blocks"
    by (rule spec_glyph_present)
  show "spec_glyph None \<notin> set blocks"
    by (rule spec_glyph_absent)
  show "\<bar>real_of_int (spec_index v) - (spec_clamp v - 1) / 9 * 7\<bar> \<le> 1 / 2 + 1 / 2 ^ 48"
    by (rule spec_index_near)
  show "length blocks = 8"
    by (rule length_blocks)
  show "distinct blocks" "sorted blocks"
    by (simp_all add: blocks_def)
  show "to_sparkline (replicate k None) = Inr (replicate k (spec_glyph None))"
    by (simp add: to_sparkline_map)
  have "spec_glyph (Some (Finite 10)) = last blocks"
    by (simp add: spec_glyph_def spec_index_10 blocks_def)
  then show "to_sparkline [Some (Finite 10)] = Inr [last blocks]"
    by (simp add: to_sparkline_map)
  show "block_index (Finite (11 / 2)) = Inr 4"
    by (simp only: block_index_spec spec_index_half)
  show "block_index (Finite (7398770816394386 / 2 ^ 52)) = Inr 0"
    by (simp only: block_index_spec spec_index_tie_0)
  show "block_index (Finite (6594556597221083 / 2 ^ 51)) = Inr 2"
    by (simp only: block_index_spec spec_index_tie_1)
qed

theorem to_sparkline_glyphs_witness:
  "to_sparkline [Some (Finite 1), None, Some (Finite (11 / 2)), Some (Finite 10),
                 Some (Finite 12), Some (Finite (- 3)), Some NaN,
                 Some (Finite (6594556597221083 / 2 ^ 51))]
     = Inr [0x2581, 0xB7, 0x2585, 0x2588, 0x2588, 0x2581, 0x2588, 0x2583]"
proof -
  have g: "spec_glyph (Some (Finite 1)) = 0x2581" "spec_glyph None = 0xB7"
    "spec_glyph (Some (Finite (11 / 2))) = 0x2585" "spec_glyph (Some (Finite 10)) = 0x2588"
    "spec_glyph (Some (Finite 12)) = 0x2588" "spec_glyph (Some (Finite (- 3))) = 0x2581"
    "spec_glyph (Some NaN) = 0x2588"
    by (simp_all add: spec_glyph_def blocks_def spec_index_1 spec_index_10 spec_index_half
        spec_index_above spec_index_below spec_index_nan)
  have t: "spec_glyph (Some (Finite (6594556597221083 / 2 ^ 51))) = 0x2583"
    unfolding spec_glyph_def option.case spec_index_tie_1 by (simp add: blocks_def)
  from to_sparkline_glyphs
    [of "[Some (Finite 1), None, Some (Finite (11 / 2)), Some (Finite 10),
          Some (Finite 12), Some (Finite (- 3)), Some NaN,
          Some (Finite (6594556597221083 / 2 ^ 51))]"]
  have "to_sparkline [Some (Finite 1), None, Some (Finite (11 / 2)), Some (Finite 10),
                      Some (Finite 12), Some (Finite (- 3)), Some NaN,
                      Some (Finite (6594556597221083 / 2 ^ 51))]
          = Inr (map spec_glyph [Some (Finite 1), None, Some (Finite (11 / 2)), Some (Finite 10),
                      Some (Finite 12), Some (Finite (- 3)), Some NaN,
                      Some (Finite (6594556597221083 / 2 ^ 51))])"
    by (rule conjunct1)
  then show ?thesis
    by (simp only: list.map g t)
qed

section \<open>The daily average\<close>

lemma dict_get_update:
  "dict_get (AList.update k v al) x dflt = (if x = k then v else dict_get al x dflt)"
  by (simp add: dict_get_def update_conv')

lemma sums_counts_inv:
  "sums_counts recs (s, c) = (s', c') \<Longrightarrow>
     (\<forall>d. dict_get s' d 0 = dict_get s d 0 + sum_list (spec_scores recs d))
   \<and> (\<forall>d. dict_get c' d 0 = dict_get c d 0 + int (length (spec_scores recs d)))
   \<and> fst ` set s' = fst ` set s \<union> fst ` set recs
   \<and> fst ` set c' = fst ` set c \<union> fst ` set recs"
proof (induction recs arbitrary: s c)
  case Nil
  then show ?case by (simp add: spec_scores_def)
next
  case (Cons p recs)
  obtain d x where p: "p = (d, x)" by (cases p)
  let ?s1 = "AList.update d (dict_get s d 0 + x) s"
  let ?c1 = "AList.update d (dict_get c d 0 + 1) c"
  from Cons.prems p have "sums_counts recs (?s1, ?c1) = (s', c')" by simp
  from Cons.IH [OF this] show ?case
    by (auto simp: p dict_get_update spec_scores_def dom_update)
qed

lemma dict_index_present:
  "k \<in> fst ` set al \<Longrightarrow> dict_index al k = Inr (dict_get al k dflt)"
  by (auto simp: dict_index_def dict_get_def map_of_eq_None_iff split: option.splits)

lemma truediv_cases:
  "b \<noteq> 0 \<Longrightarrow>
   truediv a b = (if double_overflow (real_of_int a / real_of_int b) then Inl OverflowError
                  else Inr (Finite (round_double (real_of_int a / real_of_int b))))"
  by (auto simp: truediv_def double_overflow_def round_float_def Let_def)

lemma averages_map:
  "set ds \<subseteq> fst ` set s \<Longrightarrow> set ds \<subseteq> fst ` set c \<Longrightarrow>
   (\<forall>d \<in> set ds. dict_get c d 0 \<noteq> 0) \<Longrightarrow>
   (\<forall>d \<in> set ds.
      \<not> double_overflow (real_of_int (dict_get s d 0) / real_of_int (dict_get c d 0))) \<Longrightarrow>
   \<exists>out'. averages ds s c out = Inr out'
     \<and> map_of out' = (\<lambda>d. if d \<in> set ds
                            then Some (Finite (round_double
                                   (real_of_int (dict_get s d 0) / real_of_int (dict_get c d 0))))
                            else map_of out d)"
proof (induction ds arbitrary: out)
  case Nil
  then show ?case by simp
next
  case (Cons d ds)
  let ?v = "Finite (round_double (real_of_int (dict_get s d 0) / real_of_int (dict_get c d 0)))"
  from Cons.prems have step:
    "averages (d # ds) s c out = averages ds s c (AList.update d ?v out)"
    by (simp add: dict_index_present [where dflt = 0] truediv_cases)
  from Cons.prems
  have "set ds \<subseteq> fst ` set s" "set ds \<subseteq> fst ` set c" "\<forall>d \<in> set ds. dict_get c d 0 \<noteq> 0"
    "\<forall>d \<in> set ds.
       \<not> double_overflow (real_of_int (dict_get s d 0) / real_of_int (dict_get c d 0))"
    by auto
  from Cons.IH [OF this, of "AList.update d ?v out"]
  obtain out' where o: "averages ds s c (AList.update d ?v out) = Inr out'"
    "map_of out' = (\<lambda>x. if x \<in> set ds
                            then Some (Finite (round_double
                                   (real_of_int (dict_get s x 0) / real_of_int (dict_get c x 0))))
                            else map_of (AList.update d ?v out) x)"
    by blast
  show ?case
    unfolding step using o by (auto simp: update_conv' fun_eq_iff)
qed

lemma averages_overflow:
  "set ds \<subseteq> fst ` set s \<Longrightarrow> set ds \<subseteq> fst ` set c \<Longrightarrow>
   (\<forall>d \<in> set ds. dict_get c d 0 \<noteq> 0) \<Longrightarrow>
   (\<exists>d \<in> set ds.
      double_overflow (real_of_int (dict_get s d 0) / real_of_int (dict_get c d 0))) \<Longrightarrow>
   averages ds s c out = Inl OverflowError"
proof (induction ds arbitrary: out)
  case Nil
  then show ?case by simp
next
  case (Cons d ds)
  show ?case
  proof (cases "double_overflow (real_of_int (dict_get s d 0) / real_of_int (dict_get c d 0))")
    case True
    with Cons.prems show ?thesis
      by (simp add: dict_index_present [where dflt = 0] truediv_cases)
  next
    case False
    with Cons.prems have step:
      "averages (d # ds) s c out
         = averages ds s c
             (AList.update d
               (Finite (round_double
                  (real_of_int (dict_get s d 0) / real_of_int (dict_get c d 0)))) out)"
      by (simp add: dict_index_present [where dflt = 0] truediv_cases)
    from Cons.prems False
    have "set ds \<subseteq> fst ` set s" "set ds \<subseteq> fst ` set c" "\<forall>d \<in> set ds. dict_get c d 0 \<noteq> 0"
      "\<exists>d \<in> set ds.
         double_overflow (real_of_int (dict_get s d 0) / real_of_int (dict_get c d 0))"
      by auto
    from Cons.IH [OF this] show ?thesis
      unfolding step .
  qed
qed

text \<open>
  The aggregation raises nothing but the \<open>OverflowError\<close> of a mean beyond the doubles:
  every key of \<open>sums\<close> is a key of \<open>counts\<close>, with a count of at least 1. When no mean
  overflows, the resulting dictionary is the specification's daily average.
\<close>

lemma sums_counts_spec:
  assumes "sums_counts records ([], []) = (s, c)"
  shows "dict_get s d 0 = sum_list (spec_scores records d)"
    and "dict_get c d 0 = int (length (spec_scores records d))"
    and "fst ` set s = fst ` set records" and "fst ` set c = fst ` set records"
    and "real_of_int (dict_get s d 0) / real_of_int (dict_get c d 0) = spec_mean records d"
proof -
  from sums_counts_inv [OF assms]
  show gs: "dict_get s d 0 = sum_list (spec_scores records d)"
    and gc: "dict_get c d 0 = int (length (spec_scores records d))"
    and "fst ` set s = fst ` set records" and "fst ` set c = fst ` set records"
    by (simp_all add: dict_get_def)
  show "real_of_int (dict_get s d 0) / real_of_int (dict_get c d 0) = spec_mean records d"
    by (simp add: gs gc spec_mean_def)
qed

lemma spec_scores_nonempty: "d \<in> fst ` set records \<Longrightarrow> spec_scores records d \<noteq> []"
  by (auto simp: spec_scores_def filter_empty_conv)

lemma spec_scores_empty: "d \<notin> fst ` set records \<Longrightarrow> spec_scores records d = []"
  by (force simp: spec_scores_def filter_empty_conv)

lemma aggregate_spec:
  assumes "\<forall>d \<in> fst ` set records. \<not> double_overflow (spec_mean records d)"
  shows "\<exists>m. aggregate_daily_average records = Inr m \<and> map_of m = spec_daily_average records"
proof -
  obtain s c where sc: "sums_counts records ([], []) = (s, c)"
    by (cases "sums_counts records ([], [])")
  note spec = sums_counts_spec [OF sc]
  have k: "set (map fst s) = fst ` set records"
    by (simp add: spec(3))
  have "set (map fst s) \<subseteq> fst ` set s" "set (map fst s) \<subseteq> fst ` set c"
    by (simp_all add: spec(3,4))
  moreover have "\<forall>d \<in> set (map fst s). dict_get c d 0 \<noteq> 0"
    unfolding k spec(2) using spec_scores_nonempty [of _ records] by simp
  moreover have "\<forall>d \<in> set (map fst s).
       \<not> double_overflow (real_of_int (dict_get s d 0) / real_of_int (dict_get c d 0))"
    unfolding k spec(5) by (rule assms)
  ultimately have "\<exists>out'. averages (map fst s) s c [] = Inr out'
     \<and> map_of out' = (\<lambda>d. if d \<in> set (map fst s)
                            then Some (Finite (round_double
                                   (real_of_int (dict_get s d 0) / real_of_int (dict_get c d 0))))
                            else map_of [] d)"
    by (rule averages_map)
  then
  obtain m where m: "averages (map fst s) s c [] = Inr m"
    "map_of m = (\<lambda>d. if d \<in> set (map fst s)
                       then Some (Finite (round_double
                              (real_of_int (dict_get s d 0) / real_of_int (dict_get c d 0))))
                       else map_of [] d)"
    by blast
  have "map_of m = spec_daily_average records"
  proof
    fix d
    show "map_of m d = spec_daily_average records d"
      using m(2) spec_scores_nonempty [of d records] spec_scores_empty [of d records]
      by (auto simp: spec_daily_average_def spec(3,5))
  qed
  with m(1) sc show ?thesis
    by (simp add: aggregate_daily_average_def)
qed

lemma aggregate_overflow:
  assumes "\<exists>d \<in> fst ` set records. double_overflow (spec_mean records d)"
  shows "aggregate_daily_average records = Inl OverflowError"
proof -
  obtain s c where sc: "sums_counts records ([], []) = (s, c)"
    by (cases "sums_counts records ([], [])")
  note spec = sums_counts_spec [OF sc]
  have k: "set (map fst s) = fst ` set records"
    by (simp add: spec(3))
  have "set (map fst s) \<subseteq> fst ` set s" "set (map fst s) \<subseteq> fst ` set c"
    by (simp_all add: spec(3,4))
  moreover have "\<forall>d \<in> set (map fst s). dict_get c d 0 \<noteq> 0"
    unfolding k spec(2) using spec_scores_nonempty [of _ records] by simp
  moreover have "\<exists>d \<in> set (map fst s).
       double_overflow (real_of_int (dict_get s d 0) / real_of_int (dict_get c d 0))"
    unfolding k spec(5) by (rule assms)
  ultimately have "averages (map fst s) s c [] = Inl OverflowError"
    by (rule averages_overflow)
  with sc show ?thesis
    by (simp add: aggregate_daily_average_def)
qed

lemma dm_sums_counts_eq: "dm_sums_counts records acc = sums_counts records acc"
  by (induction records acc rule: sums_counts.induct) simp_all

lemma dm_averages_eq: "dm_averages ds s c out = averages ds s c out"
  by (induction ds arbitrary: out) (simp_all split: sum.splits)

lemma dm_aggregate_eq: "dm_aggregate_daily_average records = aggregate_daily_average records"
  by (simp add: dm_aggregate_daily_average_def aggregate_daily_average_def
      dm_sums_counts_eq dm_averages_eq)

section \<open>The trailing days\<close>

lemma date_sub_ok:
  "0 \<le> i \<Longrightarrow> i < today \<Longrightarrow> today \<le> MAXORDINAL \<Longrightarrow> date_sub today i = Inr (today - i)"
  by (simp add: date_sub_def timedelta_def MAXORDINAL_def Let_def)

lemma date_sub_overflow: "today \<le> i \<Longrightarrow> date_sub today i = Inl OverflowError"
  by (simp add: date_sub_def timedelta_def Let_def)

lemma days_before_ok:
  "\<forall>i \<in> set is. 0 \<le> i \<and> i < today \<Longrightarrow> today \<le> MAXORDINAL \<Longrightarrow>
   days_before today is = Inr (map (\<lambda>i. today - i) is)"
  by (induction "is") (simp_all add: date_sub_ok)

lemma map_sub_rev_upto: "map (\<lambda>i. t - i) (rev [0..m]) = [t - m..t]"
proof (rule nth_equalityI)
  show "length (map (\<lambda>i. t - i) (rev [0..m])) = length [t - m..t]" by simp
next
  fix k assume "k < length (map (\<lambda>i. t - i) (rev [0..m]))"
  then have k: "k < nat (m + 1)" by simp
  then have "rev [0..m] ! k = m - int k"
    by (simp add: rev_nth nth_upto)
  with k show "map (\<lambda>i. t - i) (rev [0..m]) ! k = [t - m..t] ! k"
    by (simp add: nth_upto)
qed

lemma last_n_dates_ok:
  assumes "n \<le> today" "today \<le> MAXORDINAL"
  shows "last_n_dates today n = Inr (map isoformat [today - n + 1..today])"
proof -
  have "days_before today (range_down n) = Inr (map (\<lambda>i. today - i) (range_down n))"
    using assms by (intro days_before_ok) (auto simp: range_down_def)
  moreover have "map (\<lambda>i. today - i) (range_down n) = [today - n + 1..today]"
  proof -
    have "today - (n - 1) = today - n + 1" by simp
    with map_sub_rev_upto [of today "n - 1"] show ?thesis by (simp add: range_down_def)
  qed
  ultimately show ?thesis by (simp add: last_n_dates_def)
qed

lemma range_down_first: "1 \<le> n \<Longrightarrow> range_down n = (n - 1) # range_down (n - 1)"
proof -
  assume "1 \<le> n"
  then have "[0..n - 1] = [0..n - 1 - 1] @ [n - 1]"
    by (intro upto_rec2) simp
  then show ?thesis by (simp add: range_down_def)
qed

lemma last_n_dates_overflow:
  "1 \<le> n \<Longrightarrow> today < n \<Longrightarrow> last_n_dates today n = Inl OverflowError"
  by (simp add: last_n_dates_def range_down_first date_sub_overflow)

lemma dm_days_before_eq: "dm_days_before today is = days_before today is"
  by (induction "is") (simp_all split: sum.splits)

lemma dm_last_n_dates_eq: "dm_last_n_dates today n = last_n_dates today n"
  by (simp add: dm_last_n_dates_def last_n_dates_def dm_days_before_eq)

text \<open>
  C10. The four helpers that \<open>data_manager.py\<close> repeats from \<open>main.py\<close> are equal, each to its
  original, on every log file, every list of records, every current day and count of
  days, and every series.
\<close>

theorem duplicated_helpers_equal:
  "dm_read_all_records I f = read_all_records I f
   \<and> dm_aggregate_daily_average records = aggregate_daily_average records
   \<and> dm_last_n_dates today n = last_n_dates today n
   \<and> dm_to_sparkline vs = to_sparkline vs"
  by (simp add: dm_read_all_records_eq dm_aggregate_eq dm_last_n_dates_eq dm_to_sparkline_eq)

section \<open>The aligned series\<close>

lemma read_aligned_series_empty:
  "dm_read_all_records I f = Inr [] \<Longrightarrow>
   dm_read_aligned_series I today n f = Inr ([], []) \<and> show_recent_stats I today n f = Inr None"
  by (simp add: dm_read_aligned_series_def show_recent_stats_def dm_read_all_records_eq)

lemma read_aligned_series_failure:
  "dm_read_all_records I f = Inl e \<Longrightarrow> dm_read_aligned_series I today n f = Inl e"
  by (simp add: dm_read_aligned_series_def)

lemma read_aligned_series_overflow:
  assumes "dm_read_all_records I f = Inr records" "records \<noteq> []"
    and "\<forall>d \<in> fst ` set records. \<not> double_overflow (spec_mean records d)"
    and "1 \<le> n" "today < n"
  shows "dm_read_aligned_series I today n f = Inl OverflowError"
proof -
  from aggregate_spec [OF assms(3)]
  obtain m where "aggregate_daily_average records = Inr m"
    by blast
  with assms(1,2,4,5) show ?thesis
    by (simp add: dm_read_aligned_series_def dm_aggregate_eq dm_last_n_dates_eq
        last_n_dates_overflow)
qed

lemma read_aligned_series_mean_overflow:
  assumes "dm_read_all_records I f = Inr records" "records \<noteq> []"
    and "\<exists>d \<in> fst ` set records. double_overflow (spec_mean records d)"
  shows "dm_read_aligned_series I today n f = Inl OverflowError"
  using assms(1,2) aggregate_overflow [OF assms(3)]
  by (simp add: dm_read_aligned_series_def dm_aggregate_eq)

lemma read_aligned_series_ok:
  assumes "dm_read_all_records I f = Inr records" "records \<noteq> []"
    and "\<forall>d \<in> fst ` set records. \<not> double_overflow (spec_mean records d)"
    and "n \<le> today" "today \<le> MAXORDINAL"
  shows "dm_read_aligned_series I today n f
           = Inr (map isoformat [today - n + 1..today],
                  map (\<lambda>d. spec_daily_average records (isoformat d)) [today - n + 1..today])"
    and "show_recent_stats I today n f
           = Inr (Some (map isoformat [today - n + 1..today],
                        map (\<lambda>d. spec_daily_average records (isoformat d)) [today - n + 1..today],
                        map spec_glyph
                          (map (\<lambda>d. spec_daily_average records (isoformat d))
                             [today - n + 1..today])))"
proof -
  from aggregate_spec [OF assms(3)]
  obtain m where m: "aggregate_daily_average records = Inr m"
    "map_of m = spec_daily_average records"
    by blast
  note days = last_n_dates_ok [OF assms(4,5)]
  show "dm_read_aligned_series I today n f
          = Inr (map isoformat [today - n + 1..today],
                 map (\<lambda>d. spec_daily_average records (isoformat d)) [today - n + 1..today])"
    using assms(1,2) m days
    by (simp add: dm_read_aligned_series_def dm_aggregate_eq dm_last_n_dates_eq comp_def)
  from assms(1) have "read_all_records I f = Inr records"
    by (simp add: dm_read_all_records_eq)
  then show "show_recent_stats I today n f
           = Inr (Some (map isoformat [today - n + 1..today],
                        map (\<lambda>d. spec_daily_average records (isoformat d)) [today - n + 1..today],
                        map spec_glyph
                          (map (\<lambda>d. spec_daily_average records (isoformat d))
                             [today - n + 1..today])))"
    using assms(2) m days
    by (simp add: show_recent_stats_def comp_def Let_def to_sparkline_map)
qed

lemma sample_log_records:
  "dm_read_all_records I sample_log
     = Inr [(str ''2024-01-01'', 3), (str ''2024-01-01'', 5), (str ''2024-01-03'', 7),
            (str ''2023-12-25'', 10)]"
proof -
  have ints: "py_int I (str ''3'') = Inr 3" "py_int I (str ''5'') = Inr 5"
    "py_int I (str ''7'') = Inr 7" "py_int I (str ''10'') = Inr 10"
    "py_int I (str ''x'') = Inl ValueError"
    by (simp_all add: int_simps str_def)
  have days: "strip (str ''2024-01-01'') = str ''2024-01-01''"
    "strip (str '' 2024-01-01'') = str ''2024-01-01''"
    "strip (str ''2024-01-03'') = str ''2024-01-03''"
    "strip (str ''2023-12-25'') = str ''2023-12-25''"
    by (simp_all add: string_simps)
  show ?thesis
    by (simp add: dm_read_all_records_def sample_log_def ints days Let_def)
qed

lemma double_overflow_int: "\<bar>n\<bar> < 2 ^ 53 \<Longrightarrow> \<not> double_overflow (real_of_int n)"
proof -
  assume a: "\<bar>n\<bar> < 2 ^ 53"
  then have "\<bar>real_of_int n\<bar> < 2 ^ 53"
    by (metis of_int_abs of_int_less_numeral_power_cancel_iff)
  also have "\<dots> < (2::real) ^ 1024" by simp
  finally show ?thesis
    by (simp add: double_overflow_def round_double_int [OF a])
qed

lemma double_overflow_huge: "2 ^ 1024 \<le> x \<Longrightarrow> double_overflow x"
proof -
  assume "2 ^ 1024 \<le> x"
  then have "2 ^ 1024 \<le> round_double x" by (rule round_double_overflow)
  then show ?thesis by (simp add: double_overflow_def)
qed

text \<open>The means of the example log are 4, 7 and 10, which are doubles.\<close>

lemma sample_log_means:
  "spec_mean [(str ''2024-01-01'', 3), (str ''2024-01-01'', 5), (str ''2024-01-03'', 7),
              (str ''2023-12-25'', 10)] (str ''2024-01-01'') = real_of_int 4"
  "spec_mean [(str ''2024-01-01'', 3), (str ''2024-01-01'', 5), (str ''2024-01-03'', 7),
              (str ''2023-12-25'', 10)] (str ''2024-01-03'') = real_of_int 7"
  "spec_mean [(str ''2024-01-01'', 3), (str ''2024-01-01'', 5), (str ''2024-01-03'', 7),
              (str ''2023-12-25'', 10)] (str ''2023-12-25'') = real_of_int 10"
  by (simp_all add: spec_mean_def spec_scores_def str_def)

lemma sample_log_no_overflow:
  "\<forall>d \<in> fst ` set [(str ''2024-01-01'', 3), (str ''2024-01-01'', 5), (str ''2024-01-03'', 7),
                     (str ''2023-12-25'', 10 :: int)].
     \<not> double_overflow
         (spec_mean [(str ''2024-01-01'', 3), (str ''2024-01-01'', 5), (str ''2024-01-03'', 7),
                     (str ''2023-12-25'', 10)] d)"
proof -
  have "\<not> double_overflow (real_of_int 4)" "\<not> double_overflow (real_of_int 7)"
    "\<not> double_overflow (real_of_int 10)"
    by (rule double_overflow_int, simp)+
  then show ?thesis
    by (simp only: list.set image_insert image_empty fst_conv ball_simps sample_log_means
        simp_thms)
qed

lemma isoformat_examples:
  "isoformat 738886 = str ''2024-01-01''"
  "isoformat 738887 = str ''2024-01-02''"
  "isoformat 738888 = str ''2024-01-03''"
  by (simp_all add: date_simps Let_def str_def)

text \<open>\<open>int\<close> reads 1 followed by \<open>n\<close> zeros as \<open>10 ^ n\<close>.\<close>

lemma decimal_value_zeros: "decimal_value (c # replicate n 0x30) = int (c - 0x30) * 10 ^ n"
proof -
  have "foldl (\<lambda>acc c. 10 * acc + int (c - 0x30)) a (replicate n 0x30) = a * 10 ^ n" for a
    by (induction n arbitrary: a) simp_all
  then show ?thesis by (simp add: decimal_value_def)
qed

lemma underscores_ok_digits: "\<forall>c \<in> set cs. c \<noteq> 0x5F \<Longrightarrow> underscores_ok cs"
  by (induction cs rule: underscores_ok.induct) simp_all

lemma py_int_power_of_ten:
  assumes "n < 640"
  shows "py_int I (0x31 # replicate n 0x30) = Inr (10 ^ n)"
proof -
  have u: "underscores_ok (0x31 # replicate n 0x30)"
    by (rule underscores_ok_digits) simp
  show ?thesis
    using assms u
    by (simp add: py_int_def Let_def to_ascii_def is_ascii_space_def is_ascii_digit_def
        takeWhile_replicate dropWhile_replicate decimal_value_zeros)
qed

lemma overflow_log_records:
  "dm_read_all_records I overflow_log = Inr [(str ''2024-01-03'', 10 ^ 309)]"
proof -
  have "py_int I (0x31 # replicate 309 0x30) = Inr (10 ^ 309)"
    by (rule py_int_power_of_ten) simp
  moreover have "strip (str ''2024-01-03'') = str ''2024-01-03''"
    by (simp add: string_simps)
  ultimately show ?thesis
    by (simp add: dm_read_all_records_def overflow_log_def Let_def)
qed

lemma overflow_log_mean:
  "double_overflow (spec_mean [(str ''2024-01-03'', 10 ^ 309)] (str ''2024-01-03''))"
proof -
  have "spec_mean [(str ''2024-01-03'', 10 ^ 309)] (str ''2024-01-03'') = 10 ^ 309"
    by (simp add: spec_mean_def spec_scores_def)
  moreover have "(2::real) ^ 1024 \<le> 10 ^ 309"
    by simp
  ultimately show ?thesis
    by (simp only: double_overflow_huge)
qed

text \<open>
  C1, as the specification states it, fails on the code in four places. On a log from
  which no record parses (here a file with its header only) \<open>_read_aligned_series(1)\<close>
  returns two empty lists, not one pair: the function returns early, and its callers
  report that there is no history. \<open>_last_n_dates\<close> cannot go back beyond 0001-01-01:
  on 2024-01-03, day 738888, a window of 738889 days raises \<open>OverflowError\<close>. A day whose
  mean score is beyond the doubles (here one record of score \<open>10 ^ 309\<close>) raises
  \<open>OverflowError\<close> in \<open>sums[d] / counts[d]\<close>. And when the reader raises (here after the
  first data row of the example log) the exception leaves the function.
\<close>

theorem read_aligned_series_counterexample:
  "dm_read_aligned_series sample_interp 738888 1 (Present [new_header] True) = Inr ([], [])
   \<and> dm_read_aligned_series sample_interp 738888 738889 sample_log = Inl OverflowError
   \<and> dm_read_aligned_series sample_interp 738888 1 overflow_log = Inl OverflowError
   \<and> dm_read_aligned_series sample_interp 738888 1 (interrupted 2 sample_log) = Inl ReadError"
proof (intro conjI)
  have "dm_read_all_records sample_interp (Present [new_header] True) = Inr []"
    by (simp add: dm_read_all_records_def)
  then show "dm_read_aligned_series sample_interp 738888 1 (Present [new_header] True)
      = Inr ([], [])"
    by (simp add: read_aligned_series_empty)
  show "dm_read_aligned_series sample_interp 738888 738889 sample_log = Inl OverflowError"
    by (rule read_aligned_series_overflow [OF sample_log_records _ sample_log_no_overflow])
       simp_all
  show "dm_read_aligned_series sample_interp 738888 1 overflow_log = Inl OverflowError"
  proof (rule read_aligned_series_mean_overflow [OF overflow_log_records])
    show "[(str ''2024-01-03'', 10 ^ 309 :: int)] \<noteq> []"
      by simp
    show "\<exists>d \<in> fst ` set [(str ''2024-01-03'', 10 ^ 309)].
            double_overflow (spec_mean [(str ''2024-01-03'', 10 ^ 309)] d)"
      by (rule bexI [where x = "str ''2024-01-03''"]) (simp_all only: overflow_log_mean, simp)
  qed
  have "dm_read_all_records sample_interp (interrupted 2 sample_log) = Inl ReadError"
    by (simp add: dm_read_all_records_def interrupted_def sample_log_def)
  then show "dm_read_aligned_series sample_interp 738888 1 (interrupted 2 sample_log)
      = Inl ReadError"
    by (rule read_aligned_series_failure)
qed

text \<open>
  C1, amended. Let the reader read the log to its end (or the file be missing), with
  \<open>records\<close> what \<open>_read_all_records\<close> parses from it. When no record parses,
  \<open>_read_aligned_series(n)\<close> is the pair of two empty lists (and \<open>show_recent_stats\<close>
  returns early). When at least one record parses, no day of the log has a mean score
  beyond the doubles, and \<open>1 \<le> n\<close> does not exceed the ordinal of the current day, it
  returns exactly \<open>n\<close> day labels, the ISO dates of the contiguous days
  \<open>today - n + 1, \<dots>, today\<close>, oldest first, and with each label the daily average of the
  records carrying that label, the double nearest to the mean of their scores, or \<open>None\<close>
  when no record carries it; \<open>show_recent_stats\<close> computes the same series.
\<close>

theorem read_aligned_series_window:
  assumes "dm_read_all_records I f = Inr records"
  shows "(records = [] \<longrightarrow>
            dm_read_aligned_series I today n f = Inr ([], [])
            \<and> show_recent_stats I today n f = Inr None)
       \<and> (records \<noteq> [] \<and> (\<forall>d \<in> fst ` set records. \<not> double_overflow (spec_mean records d))
          \<and> 1 \<le> n \<and> n \<le> today \<and> today \<le> MAXORDINAL \<longrightarrow>
            dm_read_aligned_series I today n f
              = Inr (map isoformat [today - n + 1..today],
                     map (\<lambda>d. spec_daily_average records (isoformat d)) [today - n + 1..today])
            \<and> length [today - n + 1..today] = nat n
            \<and> last [today - n + 1..today] = today
            \<and> show_recent_stats I today n f
                = Inr (Some (map isoformat [today - n + 1..today],
                             map (\<lambda>d. spec_daily_average records (isoformat d))
                               [today - n + 1..today],
                             map spec_glyph
                               (map (\<lambda>d. spec_daily_average records (isoformat d))
                                  [today - n + 1..today]))))"
proof (intro conjI impI)
  assume "records = []"
  with assms show "dm_read_aligned_series I today n f = Inr ([], [])"
    and "show_recent_stats I today n f = Inr None"
    by (simp_all add: read_aligned_series_empty)
next
  assume a: "records \<noteq> [] \<and> (\<forall>d \<in> fst ` set records. \<not> double_overflow (spec_mean records d))
          \<and> 1 \<le> n \<and> n \<le> today \<and> today \<le> MAXORDINAL"
  then have r: "records \<noteq> []" and n: "n \<le> today" and t: "today \<le> MAXORDINAL"
    and o: "\<forall>d \<in> fst ` set records. \<not> double_overflow (spec_mean records d)"
    by simp_all
  show "dm_read_aligned_series I today n f
          = Inr (map isoformat [today - n + 1..today],
                 map (\<lambda>d. spec_daily_average records (isoformat d)) [today - n + 1..today])"
    by (rule read_aligned_series_ok(1) [OF assms r o n t])
  show "show_recent_stats I today n f
                = Inr (Some (map isoformat [today - n + 1..today],
                             map (\<lambda>d. spec_daily_average records (isoformat d))
                               [today - n + 1..today],
                             map spec_glyph
                               (map (\<lambda>d. spec_daily_average records (isoformat d))
                                  [today - n + 1..today])))"
    by (rule read_aligned_series_ok(2) [OF assms r o n t])
  show "length [today - n + 1..today] = nat n"
    by simp
  from a have "[today - n + 1..today] = [today - n + 1..today - 1] @ [today]"
    by (intro upto_rec2) simp
  then show "last [today - n + 1..today] = today"
    by simp
qed

theorem read_aligned_series_window_witness:
  "dm_read_all_records sample_interp sample_log
     = Inr [(str ''2024-01-01'', 3), (str ''2024-01-01'', 5), (str ''2024-01-03'', 7),
            (str ''2023-12-25'', 10)]
   \<and> dm_read_aligned_series sample_interp 738888 3 sample_log
       = Inr ([str ''2024-01-01'', str ''2024-01-02'', str ''2024-01-03''],
              [Some (Finite 4), None, Some (Finite 7)])"
proof -
  let ?records = "[(str ''2024-01-01'', 3), (str ''2024-01-01'', 5), (str ''2024-01-03'', 7),
                   (str ''2023-12-25'', 10 :: int)]"
  have rd: "round_double 4 = 4" "round_double 7 = 7"
    using round_double_int [of 4] round_double_int [of 7] by simp_all
  have "spec_scores ?records (str ''2024-01-01'') \<noteq> []"
    "spec_scores ?records (str ''2024-01-02'') = []"
    "spec_scores ?records (str ''2024-01-03'') \<noteq> []"
    by (simp_all add: spec_scores_def str_def)
  then have avg: "spec_daily_average ?records (str ''2024-01-01'') = Some (Finite 4)"
    "spec_daily_average ?records (str ''2024-01-02'') = None"
    "spec_daily_average ?records (str ''2024-01-03'') = Some (Finite 7)"
    by (simp_all add: spec_daily_average_def sample_log_means rd)
  have window: "[738888 - 3 + 1..738888] = [738886, 738887, 738888 :: int]"
    by (simp add: upto_rec1)
  from read_aligned_series_window [OF sample_log_records, of sample_interp 738888 3]
    sample_log_no_overflow
  have "dm_read_aligned_series sample_interp 738888 3 sample_log
      = Inr (map isoformat [738888 - 3 + 1..738888],
             map (\<lambda>d. spec_daily_average ?records (isoformat d)) [738888 - 3 + 1..738888])"
    by (simp add: MAXORDINAL_def)
  then show ?thesis
    by (simp only: window sample_log_records list.map isoformat_examples avg simp_thms)
qed

section \<open>Choosing a message\<close>

lemma get_or_nonempty: "get_or messages k [b] \<noteq> []"
  by (simp add: get_or_def split: option.splits)

lemma select_pool_nonempty: "select_pool score messages \<noteq> []"
  by (simp add: select_pool_def get_or_nonempty)

lemma choice_member: "seq \<noteq> [] \<Longrightarrow> \<exists>m. choice r seq = Inr m \<and> m \<in> set seq"
proof -
  assume ne: "seq \<noteq> []"
  then have "r mod length seq < length seq" by simp
  then have "seq ! (r mod length seq) \<in> set seq" by (rule nth_mem)
  with ne show ?thesis by (simp only: choice_def if_False simp_thms sum.inject)
qed

lemma exclude_set_eq:
  "(case excludes of
      None \<Rightarrow> (case exclude of None \<Rightarrow> {} | Some e \<Rightarrow> insert e {})
    | Some S \<Rightarrow>
        if S \<noteq> {} then (case exclude of None \<Rightarrow> {} | Some e \<Rightarrow> insert e {}) \<union> S
        else (case exclude of None \<Rightarrow> {} | Some e \<Rightarrow> insert e {}))
   = spec_excluded exclude excludes"
  by (auto simp: spec_excluded_def split: option.splits)

lemma choose_message_unfold:
  "choose_message r score messages exclude excludes =
     (if filter (\<lambda>m. m \<notin> spec_excluded exclude excludes) (select_pool score messages) \<noteq> []
      then choice r
             (filter (\<lambda>m. m \<notin> spec_excluded exclude excludes) (select_pool score messages))
      else choice r (select_pool score messages))"
  unfolding choose_message_def Let_def exclude_set_eq ..

lemma choose_message_member:
  "\<exists>m. choose_message r score messages exclude excludes = Inr m \<and>
       (if set (select_pool score messages) - spec_excluded exclude excludes \<noteq> {}
        then m \<in> set (select_pool score messages) - spec_excluded exclude excludes
        else m \<in> set (select_pool score messages))"
proof -
  let ?pool = "select_pool score messages"
  let ?X = "spec_excluded exclude excludes"
  let ?candidates = "filter (\<lambda>m. m \<notin> ?X) ?pool"
  have set_c: "set ?candidates = set ?pool - ?X" by auto
  show ?thesis
  proof (cases "?candidates = []")
    case True
    with set_c have "set ?pool - ?X = {}" by simp
    moreover from True have "choose_message r score messages exclude excludes = choice r ?pool"
      by (simp add: choose_message_unfold Let_def)
    ultimately show ?thesis
      using choice_member [OF select_pool_nonempty, of r score messages] by simp
  next
    case False
    with set_c have ne: "set ?pool - ?X \<noteq> {}" by (metis set_empty)
    from False have "choose_message r score messages exclude excludes = choice r ?candidates"
      by (simp add: choose_message_unfold Let_def)
    with choice_member [OF False, of r] set_c ne show ?thesis
      by auto
  qed
qed

lemma tier_keys_distinct:
  "str ''low'' \<noteq> str ''mid''" "str ''low'' \<noteq> str ''high''" "str ''mid'' \<noteq> str ''high''"
  by (simp_all add: str_def)

lemma spec_builtin_simps:
  "spec_builtin (str ''low'') = builtin_low"
  "spec_builtin (str ''mid'') = builtin_mid"
  "spec_builtin (str ''high'') = builtin_high"
  by (simp_all add: spec_builtin_def tier_keys_distinct [symmetric])

lemma spec_pool_get_or: "spec_pool messages t = get_or messages t [spec_builtin t]"
  by (simp add: spec_pool_def get_or_def)

lemma select_pool_tier:
  assumes "spec_tier score t"
  shows "select_pool score messages = spec_pool messages t"
proof -
  from assms consider
      (low) "score \<le> 4" "t = str ''low''"
    | (mid) "5 \<le> score" "score \<le> 7" "t = str ''mid''"
    | (high) "8 \<le> score" "t = str ''high''"
    unfolding spec_tier_def by blast
  then show ?thesis
  proof cases
    case low
    then show ?thesis
      by (simp add: select_pool_def spec_pool_get_or spec_builtin_simps)
  next
    case mid
    then show ?thesis
      by (simp add: select_pool_def spec_pool_get_or spec_builtin_simps)
  next
    case high
    then show ?thesis
      by (simp add: select_pool_def spec_pool_get_or spec_builtin_simps)
  qed
qed

lemma spec_tier_unique: "\<exists>!t. spec_tier score t"
proof -
  consider "score \<le> 4" | "5 \<le> score \<and> score \<le> 7" | "8 \<le> score" by linarith
  then show ?thesis
    by cases (auto simp: spec_tier_def)
qed

text \<open>
  C4. For every pool that \<open>choose_message\<close> selects, every single exclusion and every
  exclusion set, \<open>choose_message\<close> returns a member of the pool that is not excluded
  whenever there is one, and a member of the unfiltered pool otherwise. It returns a
  message for every draw of the random generator: it never raises, also when every
  message of the tier is excluded.
\<close>

theorem choose_message_candidates:
  "select_pool score messages \<noteq> []
   \<and> (\<exists>m. choose_message r score messages exclude excludes = Inr m \<and>
         (if set (select_pool score messages) - spec_excluded exclude excludes \<noteq> {}
          then m \<in> set (select_pool score messages) - spec_excluded exclude excludes
          else m \<in> set (select_pool score messages)))"
  using choose_message_member [of r score messages exclude excludes]
  by (simp add: select_pool_nonempty)

theorem choose_message_candidates_witness:
  "select_pool 3 [str ''low'' \<mapsto> [str ''A'', str ''B'']] = [str ''A'', str ''B'']
   \<and> set [str ''A'', str ''B''] - spec_excluded (Some (str ''A'')) (Some {str ''B''}) = {}
   \<and> choose_message 0 3 [str ''low'' \<mapsto> [str ''A'', str ''B'']]
        (Some (str ''A'')) (Some {str ''B''}) = Inr (str ''A'')
   \<and> choose_message 1 3 [str ''low'' \<mapsto> [str ''A'', str ''B'']]
        (Some (str ''A'')) (Some {str ''B''}) = Inr (str ''B'')
   \<and> choose_message 5 3 [str ''low'' \<mapsto> [str ''A'', str ''B'']]
        (Some (str ''A'')) None = Inr (str ''B'')"
proof -
  have pool: "select_pool 3 [str ''low'' \<mapsto> [str ''A'', str ''B'']] = [str ''A'', str ''B'']"
    by (simp add: select_pool_def get_or_def)
  have ne: "str ''A'' \<noteq> str ''B''"
    by (simp add: str_def)
  from choose_message_candidates
    [of 3 "[str ''low'' \<mapsto> [str ''A'', str ''B'']]" 0 "Some (str ''A'')" "Some {str ''B''}"]
  show ?thesis
    using ne by (simp add: pool choose_message_unfold spec_excluded_def choice_def Let_def)
qed

text \<open>
  C8. The tiers are contiguous and exhaustive: every score from 1 to 10 has exactly one
  tier, low up to 4, mid from 5 to 7, high from 8. \<open>choose_message\<close> selects the pool of
  that tier, which is the tier's list in the message bank, or the built-in message of the
  tier when the list is empty or absent, and returns a message of that pool.
\<close>

theorem choose_message_tier:
  assumes "1 \<le> score" "score \<le> 10"
  shows "(\<exists>!t. spec_tier score t)
       \<and> (\<forall>t. spec_tier score t \<longrightarrow>
              select_pool score messages = spec_pool messages t
              \<and> (\<exists>m. choose_message r score messages exclude excludes = Inr m
                     \<and> m \<in> set (spec_pool messages t)))"
proof (intro conjI allI impI)
  show "\<exists>!t. spec_tier score t" by (rule spec_tier_unique)
next
  fix t assume t: "spec_tier score t"
  then show pool: "select_pool score messages = spec_pool messages t"
    by (rule select_pool_tier)
  from choose_message_member [of r score messages exclude excludes]
  show "\<exists>m. choose_message r score messages exclude excludes = Inr m
            \<and> m \<in> set (spec_pool messages t)"
    unfolding pool by (auto split: if_splits)
qed

theorem choose_message_tier_witness:
  "spec_tier 7 (str ''mid'')
   \<and> select_pool 7 [str ''mid'' \<mapsto> [], str ''high'' \<mapsto> [str ''A'']] = [builtin_mid]
   \<and> choose_message 2 7 [str ''mid'' \<mapsto> [], str ''high'' \<mapsto> [str ''A'']] None None
       = Inr builtin_mid"
proof -
  have t: "spec_tier 7 (str ''mid'')"
    by (simp add: spec_tier_def)
  have p: "spec_pool [str ''mid'' \<mapsto> [], str ''high'' \<mapsto> [str ''A'']] (str ''mid'')
      = [builtin_mid]"
    by (simp add: spec_pool_def spec_builtin_simps tier_keys_distinct)
  from choose_message_tier
    [of 7 "[str ''mid'' \<mapsto> [], str ''high'' \<mapsto> [str ''A'']]" 2 None None]
  show ?thesis
    using t by (auto simp: p)
qed

section \<open>The recent messages\<close>

lemma recent_loop_spec:
  "recent_loop I (today - (W - 1)) today rs used = used \<union> spec_recent I today W rs"
  by (induction rs arbitrary: used)
     (auto simp: spec_recent_def spec_in_window_def Let_def split: option.splits)

lemma date_sub_window:
  "0 < today \<Longrightarrow> today \<le> MAXORDINAL \<Longrightarrow> 0 < today - k \<Longrightarrow> today - k \<le> MAXORDINAL \<Longrightarrow>
   date_sub today k = Inr (today - k)"
  by (simp add: date_sub_def timedelta_def MAXORDINAL_def Let_def)

lemma fromisoformat_examples:
  "fromisoformat sample_interp (str ''2024-01-01'') = Some 738886"
  "fromisoformat sample_interp (str ''2024-01-02'') = Some 738887"
  "fromisoformat sample_interp (str ''2024-01-03'') = Some 738888"
  "fromisoformat sample_interp (str ''2023-12-25'') = Some 738879"
  by (simp_all add: date_simps decimal_value_def is_ascii_digit_def str_def Let_def)

lemma strip_examples:
  "strip (str ''2024-01-01'') = str ''2024-01-01''"
  "strip (str '' 2024-01-01'') = str ''2024-01-01''"
  "strip (str ''2024-01-02'') = str ''2024-01-02''"
  "strip (str ''2024-01-03'') = str ''2024-01-03''"
  "strip (str ''2023-12-25'') = str ''2023-12-25''"
  by (simp_all add: string_simps)

lemma read_recent_messages_present:
  assumes "0 < today" "today \<le> MAXORDINAL"
    and "0 < today - (W - 1)" "today - (W - 1) \<le> MAXORDINAL"
  shows "read_recent_messages I today W (Present rows ok)
           = Inr (spec_recent I today W (drop 1 rows))"
  using date_sub_window [OF assms]
  by (simp add: read_recent_messages_def recent_loop_spec)

lemma sample_log_recent:
  "read_recent_messages sample_interp 738888 3 sample_log
     = Inr {str ''a'', str ''b'', str ''c'', str ''e''}"
proof -
  have "spec_recent sample_interp 738888 3
          [[str ''2024-01-01'', str ''3'', str ''a'', str ''''],
           [str '' 2024-01-01'', str ''5'', str ''b'', str ''slept well''],
           [str ''2024-01-03'', str ''7'', str ''c'', str ''''],
           [str ''2023-12-25'', str ''10'', str ''d'', str ''''],
           [str ''2024-01-02'', str ''x'', str ''e'', str '''']]
        = {str ''a'', str ''b'', str ''c'', str ''e''}"
    by (simp add: spec_recent_def spec_in_window_def strip_examples fromisoformat_examples)
  with read_recent_messages_present [of 738888 3 sample_interp _ True]
  show ?thesis
    by (simp add: sample_log_def MAXORDINAL_def)
qed

lemma interrupted_log_recent:
  "read_recent_messages sample_interp 738888 3 (interrupted 2 sample_log) = Inr {str ''a''}"
proof -
  have "spec_recent sample_interp 738888 3 [[str ''2024-01-01'', str ''3'', str ''a'', str '''']]
        = {str ''a''}"
    by (simp add: spec_recent_def spec_in_window_def strip_examples fromisoformat_examples)
  with read_recent_messages_present [of 738888 3 sample_interp _ False]
  show ?thesis
    by (simp add: sample_log_def interrupted_def MAXORDINAL_def)
qed

lemma fromisoformat_blank: "fromisoformat sample_interp (str '' 2024-01-01'') = None"
  by (simp add: date_simps decimal_value_def is_ascii_digit_def str_def Let_def)

text \<open>
  C5, as the specification states it, fails on the code in three places, shown on the
  example log on 2024-01-03, day 738888. A window that reaches back beyond 0001-01-01
  raises \<open>OverflowError\<close>, where the specification's set is the five messages of the log:
  \<open>cutoff = today - timedelta(days=last_days - 1)\<close> is computed outside the \<open>try\<close>. For a
  window of 3 days the set of the log is \<open>a\<close>, \<open>b\<close>, \<open>c\<close>, \<open>e\<close>; when the reader raises
  after the first data row, the function returns \<open>a\<close> alone, what it had collected. And
  \<open>b\<close> is in the set although the date field of its row, \<open>'' 2024-01-01''\<close> with a blank
  before the day, does not parse as an ISO day: the code strips the field first.
\<close>

theorem read_recent_messages_counterexample:
  "read_recent_messages sample_interp 738888 1000000 sample_log = Inl OverflowError
   \<and> read_recent_messages sample_interp 738888 3 sample_log
       = Inr {str ''a'', str ''b'', str ''c'', str ''e''}
   \<and> read_recent_messages sample_interp 738888 3 (interrupted 2 sample_log) = Inr {str ''a''}
   \<and> fromisoformat sample_interp (str '' 2024-01-01'') = None"
proof (intro conjI)
  show "read_recent_messages sample_interp 738888 1000000 sample_log = Inl OverflowError"
    by (simp add: read_recent_messages_def sample_log_def date_sub_def timedelta_def Let_def)
  show "read_recent_messages sample_interp 738888 3 sample_log
       = Inr {str ''a'', str ''b'', str ''c'', str ''e''}"
    by (rule sample_log_recent)
  show "read_recent_messages sample_interp 738888 3 (interrupted 2 sample_log)
       = Inr {str ''a''}"
    by (rule interrupted_log_recent)
  show "fromisoformat sample_interp (str '' 2024-01-01'') = None"
    by (rule fromisoformat_blank)
qed

text \<open>
  C5, amended. For every window \<open>W\<close> whose first day \<open>today - (W - 1)\<close> is a date (between
  0001-01-01 and 9999-12-31) and every log that the reader reads to its end,
  \<open>read_recent_messages\<close> returns exactly the set of the 3rd fields of the data rows with at
  least 3 fields whose date field, stripped of the white space around it, parses as an ISO
  day \<open>d\<close> with \<open>today - (W - 1) \<le> d \<le> today\<close>, whatever the score. When the reader
  fails, it returns that set for the rows read before the failure. A missing file gives
  the empty set for every \<open>W\<close>.
\<close>

theorem read_recent_messages_window:
  assumes "0 < today" "today \<le> MAXORDINAL"
    and "0 < today - (W - 1)" "today - (W - 1) \<le> MAXORDINAL"
  shows "read_recent_messages I today W (Present rows True)
           = Inr (spec_recent I today W (drop 1 rows))
       \<and> read_recent_messages I today W (Present rows False)
           = Inr (spec_recent I today W (drop 1 rows))
       \<and> read_recent_messages I today' W' Missing = Inr {}"
  using read_recent_messages_present [OF assms]
  by (simp add: read_recent_messages_def)

theorem read_recent_messages_window_witness:
  "read_recent_messages sample_interp 738888 30 sample_log
     = Inr {str ''a'', str ''b'', str ''c'', str ''d'', str ''e''}"
proof -
  have "spec_recent sample_interp 738888 30
          [[str ''2024-01-01'', str ''3'', str ''a'', str ''''],
           [str '' 2024-01-01'', str ''5'', str ''b'', str ''slept well''],
           [str ''2024-01-03'', str ''7'', str ''c'', str ''''],
           [str ''2023-12-25'', str ''10'', str ''d'', str ''''],
           [str ''2024-01-02'', str ''x'', str ''e'', str '''']]
        = {str ''a'', str ''b'', str ''c'', str ''d'', str ''e''}"
    by (simp add: spec_recent_def spec_in_window_def strip_examples fromisoformat_examples)
  with read_recent_messages_window [of 738888 30 sample_interp]
  show ?thesis
    by (simp add: sample_log_def MAXORDINAL_def)
qed

end
